theory Spec2Isabelle
  imports Main
begin

section \<open>JavaScript numbers\<close>

text \<open>
  A JavaScript number is an IEEE 754 binary64 value. \<open>Finite s m e\<close> stands for
  \<open>(-1) ^ s * m * 2 ^ e\<close> (\<open>s = True\<close> is the negative sign), so that the two zeros
  \<open>Finite False 0 (-1074)\<close> and \<open>Finite True 0 (-1074)\<close> are different values, as they are
  in the language. \<open>is_double\<close> singles out the canonical representations: a 53-bit
  significand, the exponent range of binary64, and subnormal values only at the lowest
  exponent.
\<close>

datatype number = NaN | Infinity bool | Finite bool nat int

fun is_double :: "number \<Rightarrow> bool" where
  "is_double NaN = True"
| "is_double (Infinity s) = True"
| "is_double (Finite s m e) =
     (m < 2 ^ 53 \<and> - 1074 \<le> e \<and> e \<le> 971 \<and> (2 ^ 52 \<le> m \<or> e = - 1074))"

fun is_zero :: "number \<Rightarrow> bool" where
  "is_zero (Finite s m e) = (m = 0)"
| "is_zero _ = False"

abbreviation positive_zero :: number where
  "positive_zero \<equiv> Finite False 0 (- 1074)"

abbreviation negative_zero :: number where
  "negative_zero \<equiv> Finite True 0 (- 1074)"

text \<open>\<open>Number::equal\<close>, the comparison \<open>===\<close> makes between two numbers: NaN is unequal
  to everything, itself included, and the two zeros are equal.\<close>

fun number_equal :: "number \<Rightarrow> number \<Rightarrow> bool" where
  "number_equal NaN y = False"
| "number_equal x NaN = False"
| "number_equal x y = (x = y \<or> (is_zero x \<and> is_zero y))"

subsection \<open>Rounding a rational to a number\<close>

fun bit_length :: "nat \<Rightarrow> nat" where
  "bit_length n = (if n = 0 then 0 else Suc (bit_length (n div 2)))"

declare bit_length.simps [simp del]

text \<open>The integer nearest to \<open>a / b\<close>, a tie going to the even one.\<close>

definition round_half_even :: "nat \<Rightarrow> nat \<Rightarrow> nat" where
  "round_half_even a b =
     (let q = a div b; r = a mod b
      in if 2 * r < b then q else if b < 2 * r then q + 1 else if even q then q else q + 1)"

text \<open>
  The number value of \<open>a / b\<close>, negated when \<open>sign\<close> holds: round to nearest, ties to even. The
  quotient is scaled by \<open>2 ^ 1074\<close>, so that the least exponent of binary64 becomes
  \<open>0\<close>; \<open>sh\<close> is the exponent above it at which the significand has 53 bits. A
  significand that rounds up to \<open>2 ^ 53\<close> moves to the next exponent, and an exponent
  above \<open>971\<close> is an overflow to infinity.
\<close>

definition Number_of :: "bool \<Rightarrow> nat \<Rightarrow> nat \<Rightarrow> number" where
  "Number_of sign a b =
     (let t = a * 2 ^ 1074;
          sh = bit_length (t div b) - 53;
          m = round_half_even t (b * 2 ^ sh)
      in if m = 2 ^ 53
         then (if 2045 < sh + 1 then Infinity sign else Finite sign (2 ^ 52) (int (sh + 1) - 1074))
         else (if 2045 < sh then Infinity sign else Finite sign m (int sh - 1074)))"

text \<open>The number value of the decimal \<open>s * 10 ^ p\<close>, negated when \<open>sign\<close> holds.\<close>

definition Number_of_decimal :: "bool \<Rightarrow> nat \<Rightarrow> int \<Rightarrow> number" where
  "Number_of_decimal sign s p =
     (if 0 \<le> p then Number_of sign (s * 10 ^ nat p) 1 else Number_of sign s (10 ^ nat (- p)))"

text \<open>The number value of an integer, as an integer literal of the language denotes
  it.\<close>

definition number_of_int :: "int \<Rightarrow> number" where
  "number_of_int i = Number_of (i < 0) (nat \<bar>i\<bar>) 1"

subsection \<open>Decimal digits\<close>

definition digit_char :: "nat \<Rightarrow> char" where
  "digit_char d = char_of (48 + d)"

definition is_digit :: "char \<Rightarrow> bool" where
  "is_digit c = (48 \<le> (of_char c :: nat) \<and> (of_char c :: nat) \<le> 57)"

definition digit_val :: "char \<Rightarrow> nat" where
  "digit_val c = of_char c - 48"

fun digits_of :: "nat \<Rightarrow> string" where
  "digits_of n =
     (if n < 10 then [digit_char n] else digits_of (n div 10) @ [digit_char (n mod 10)])"

declare digits_of.simps [simp del]

definition digits_value :: "string \<Rightarrow> nat" where
  "digits_value cs = foldl (\<lambda>acc c. 10 * acc + digit_val c) 0 cs"

subsection \<open>\<open>Number.prototype.toString\<close>\<close>

text \<open>
  \<open>Number::toString\<close> prints a finite non-zero \<open>x\<close> from integers \<open>n\<close>, \<open>k\<close>, \<open>s\<close>
  with \<open>k \<ge> 1\<close>, \<open>10 ^ (k - 1) \<le> s < 10 ^ k\<close>, the number value of
  \<open>s * 10 ^ (n - k)\<close> being \<open>x\<close>, and \<open>k\<close> as small as possible; among several such \<open>s\<close> the
  one closest to \<open>x\<close> is taken. Below, a pair \<open>(d, p)\<close> is the decimal \<open>d * 10 ^ p\<close>:
  \<open>s = d\<close>, \<open>k\<close> is the number of digits of \<open>d\<close> and \<open>n = k + p\<close>.

  \<open>decimal_exponent a b\<close> is the \<open>n\<close> with \<open>10 ^ (n - 1) \<le> a / b < 10 ^ n\<close>.
  \<open>candidates a b n k\<close> are the two \<open>k\<close>-digit decimals around \<open>a / b\<close>, the closer
  one first. \<open>shortest\<close> tries \<open>k = 1, 2, ...\<close> and keeps the first candidate whose
  number value is \<open>x\<close>. Seventeen digits always tell two binary64 values apart; the
  search stops there and falls back on the exact decimal expansion, which keeps the
  function total without relying on that fact.
\<close>

definition decimal_exponent :: "nat \<Rightarrow> nat \<Rightarrow> int" where
  "decimal_exponent a b =
     (if b \<le> a then int (length (digits_of (a div b)))
      else 1 - int (length (digits_of ((b - 1) div a))))"

definition candidates :: "nat \<Rightarrow> nat \<Rightarrow> int \<Rightarrow> nat \<Rightarrow> (nat \<times> int) list" where
  "candidates a b n k =
     (let p = n - int k;
          num = (if p \<le> 0 then a * 10 ^ nat (- p) else a);
          den = (if p \<le> 0 then b else b * 10 ^ nat p);
          q = num div den;
          r = num mod den;
          lo = (q, p);
          hi = (if q + 1 = 10 ^ k then (10 ^ (k - 1), p + 1) else (q + 1, p))
      in if 2 * r < den \<or> (2 * r = den \<and> even q) then [lo, hi] else [hi, lo])"

definition exact_decimal :: "nat \<Rightarrow> int \<Rightarrow> nat \<times> int" where
  "exact_decimal m e = (if 0 \<le> e then (m * 2 ^ nat e, 0) else (m * 5 ^ nat (- e), e))"

fun shortest :: "nat \<Rightarrow> nat \<Rightarrow> bool \<Rightarrow> nat \<Rightarrow> int \<Rightarrow> nat \<times> int" where
  "shortest 0 k s m e = exact_decimal m e"
| "shortest (Suc fuel) k s m e =
     (let a = (if 0 \<le> e then m * 2 ^ nat e else m);
          b = (if 0 \<le> e then 1 else 2 ^ nat (- e))
      in case find (\<lambda>(d, p). Number_of_decimal s d p = Finite s m e)
                   (candidates a b (decimal_exponent a b) k) of
           Some c \<Rightarrow> c
         | None \<Rightarrow> shortest fuel (Suc k) s m e)"

definition format_decimal :: "nat \<Rightarrow> int \<Rightarrow> string" where
  "format_decimal d p =
     (let ds = digits_of d; k = length ds; n = int k + p
      in if int k \<le> n \<and> n \<le> 21 then ds @ replicate (nat (n - int k)) CHR ''0''
         else if 0 < n \<and> n \<le> 21 then take (nat n) ds @ ''.'' @ drop (nat n) ds
         else if - 6 < n \<and> n \<le> 0 then ''0.'' @ replicate (nat (- n)) CHR ''0'' @ ds
         else (if k = 1 then ds else take 1 ds @ ''.'' @ drop 1 ds) @ ''e'' @
              (if n - 1 < 0 then ''-'' else ''+'') @ digits_of (nat \<bar>n - 1\<bar>))"

fun Number_toString :: "number \<Rightarrow> string" where
  "Number_toString NaN = ''NaN''"
| "Number_toString (Infinity s) = (if s then ''-Infinity'' else ''Infinity'')"
| "Number_toString (Finite s m e) =
     (if m = 0 then ''0''
      else (if s then ''-'' else []) @
           (case shortest 17 1 s m e of (d, p) \<Rightarrow> format_decimal d p))"

subsection \<open>\<open>parseFloat\<close>\<close>

text \<open>
  \<open>parseFloat\<close> skips leading white space and reads the longest prefix that is a
  \<open>StrDecimalLiteral\<close>: an optional sign, then \<open>Infinity\<close> or decimal digits with an
  optional fraction and an optional exponent. With no such prefix the result is NaN.
  Characters are the 8-bit ones of \<open>string\<close>, so the white space is TAB, LF, VT, FF, CR,
  SP and NBSP. The exponent is read only when a digit follows it; without digits
  \<open>digits_value\<close> is \<open>0\<close>, which is the value of no exponent. The value is
  rounded once, from the exact decimal (an implementation may round a literal of more
  than twenty significant digits in two steps).
\<close>

definition is_whitespace :: "char \<Rightarrow> bool" where
  "is_whitespace c = ((of_char c :: nat) \<in> {9, 10, 11, 12, 13, 32, 160})"

definition exponent_part :: "string \<Rightarrow> int" where
  "exponent_part r =
     (case r of
        [] \<Rightarrow> 0
      | c # cs \<Rightarrow>
          if c = CHR ''e'' \<or> c = CHR ''E'' then
            (case cs of
               [] \<Rightarrow> 0
             | d # ds \<Rightarrow>
                 if d = CHR ''-'' then - int (digits_value (takeWhile is_digit ds))
                 else if d = CHR ''+'' then int (digits_value (takeWhile is_digit ds))
                 else int (digits_value (takeWhile is_digit cs)))
          else 0)"

text \<open>The value of a \<open>StrUnsignedDecimalLiteral\<close> prefix of \<open>rest\<close>, under the sign read
  before it.\<close>

definition unsigned_literal :: "bool \<Rightarrow> string \<Rightarrow> number" where
  "unsigned_literal sign rest =
     (if take 8 rest = ''Infinity'' then Infinity sign
      else
        let ip = takeWhile is_digit rest;
            r1 = dropWhile is_digit rest;
            fp = (if take 1 r1 = ''.'' then takeWhile is_digit (drop 1 r1) else []);
            r2 = (if take 1 r1 = ''.'' then dropWhile is_digit (drop 1 r1) else r1)
        in if ip = [] \<and> fp = [] then NaN
           else Number_of_decimal sign (digits_value (ip @ fp))
                  (exponent_part r2 - int (length fp)))"

definition parseFloat :: "string \<Rightarrow> number" where
  "parseFloat inputString =
     (let trimmed = dropWhile is_whitespace inputString
      in if take 1 trimmed = ''-'' then unsigned_literal True (drop 1 trimmed)
         else if take 1 trimmed = ''+'' then unsigned_literal False (drop 1 trimmed)
         else unsigned_literal False trimmed)"

section \<open>Values and arrays\<close>

text \<open>
  The values an element of the constructor's argument can be at run time: the primitive
  values with a \<open>toString\<close> method of their own, \<open>null\<close> and \<open>undefined\<close>. Objects
  with a method \<open>toString\<close> written by the caller are left out.
\<close>

datatype jsvalue = JNumber number | JString string | JBoolean bool | JNull | JUndefined

datatype error = TypeError | Error string

text \<open>\<open>v.toString()\<close>: a number, a string and a boolean have the method; reading the
  property \<open>toString\<close> of \<open>null\<close> or \<open>undefined\<close> throws a TypeError.\<close>

fun value_toString :: "jsvalue \<Rightarrow> error + string" where
  "value_toString (JNumber x) = Inr (Number_toString x)"
| "value_toString (JString s) = Inr s"
| "value_toString (JBoolean b) = Inr (if b then ''true'' else ''false'')"
| "value_toString JNull = Inl TypeError"
| "value_toString JUndefined = Inl TypeError"

text \<open>
  An array is a list of positions, as many as its \<open>length\<close>, and a position holds an
  element or nothing: \<open>Some x\<close> is the element \<open>x\<close>, and \<open>None\<close> is a hole, a
  position below the length at which the array has no property. The array
  \<open>new Array(3)\<close> is \<open>[None, None, None]\<close>, and \<open>[undefined]\<close> is
  \<open>[Some JUndefined]\<close>. The methods \<open>map\<close>, \<open>every\<close> and \<open>slice\<close> ask at each
  position whether the array has the property and pass over a hole; reading a hole gives
  \<open>undefined\<close>. \<open>Array.prototype\<close> has no property named by an index, so that a
  hole is found nowhere else.
\<close>

type_synonym 'a array = "'a option list"

text \<open>\<open>Array.prototype.map\<close> with a callback that may throw: the positions are visited
  from the left, the callback is called on the elements only, a hole stays a hole, and
  the first exception ends the call.\<close>

fun array_map :: "('a \<Rightarrow> error + 'b) \<Rightarrow> 'a array \<Rightarrow> error + 'b array" where
  "array_map f [] = Inr []"
| "array_map f (None # xs) =
     (case array_map f xs of Inl e \<Rightarrow> Inl e | Inr ys \<Rightarrow> Inr (None # ys))"
| "array_map f (Some x # xs) =
     (case f x of
        Inl e \<Rightarrow> Inl e
      | Inr y \<Rightarrow> (case array_map f xs of Inl e \<Rightarrow> Inl e | Inr ys \<Rightarrow> Inr (Some y # ys)))"

text \<open>Reading \<open>a[i]\<close> of an array at the position \<open>i\<close>: \<open>None\<close> is \<open>undefined\<close>, which
  is read at a hole and past the end.\<close>

definition element_at :: "'a array \<Rightarrow> nat \<Rightarrow> 'a option" where
  "element_at xs i = (if i < length xs then xs ! i else None)"

text \<open>
  \<open>a[index]\<close> with a number for \<open>index\<close> reads the property named by the number's
  string. That names a position when the number is a non-negative integer (\<open>-0\<close> prints
  as \<open>0\<close>); every other number names a property an array of numbers does not have.
  An array has fewer than \<open>2 ^ 32\<close> positions, so the upper limit of an array index is
  not written out.
\<close>

fun array_index :: "number \<Rightarrow> nat option" where
  "array_index (Finite s m e) =
     (if m = 0 then Some 0
      else if s then None
      else if 0 \<le> e then Some (m * 2 ^ nat e)
      else if m mod 2 ^ nat (- e) = 0 then Some (m div 2 ^ nat (- e))
      else None)"
| "array_index x = None"

text \<open>\<open>v === w\<close> where \<open>v\<close> is a number and \<open>w\<close> was read from an array of numbers: a
  number and \<open>undefined\<close> have different types and are never strictly equal.\<close>

fun strict_equals :: "number \<Rightarrow> number option \<Rightarrow> bool" where
  "strict_equals v None = False"
| "strict_equals v (Some w) = number_equal v w"

text \<open>\<open>Array.prototype.every\<close> with the callback's index argument: the callback is
  called on the elements only, and a hole is passed over.\<close>

fun every_from :: "nat \<Rightarrow> ('a \<Rightarrow> nat \<Rightarrow> bool) \<Rightarrow> 'a array \<Rightarrow> bool" where
  "every_from i p [] = True"
| "every_from i p (None # xs) = every_from (Suc i) p xs"
| "every_from i p (Some x # xs) = (p x i \<and> every_from (Suc i) p xs)"

definition every :: "('a \<Rightarrow> nat \<Rightarrow> bool) \<Rightarrow> 'a array \<Rightarrow> bool" where
  "every p xs = every_from 0 p xs"

text \<open>\<open>Array.prototype.join\<close> on an array of numbers: an element is printed by
  \<open>Number::toString\<close>, and a hole, which reads as \<open>undefined\<close>, is the empty string.\<close>

fun element_string :: "number option \<Rightarrow> string" where
  "element_string None = []"
| "element_string (Some x) = Number_toString x"

fun join :: "string \<Rightarrow> number array \<Rightarrow> string" where
  "join sep [] = []"
| "join sep [x] = element_string x"
| "join sep (x # y # ys) = element_string x @ sep @ join sep (y # ys)"

text \<open>
  \<open>Array.prototype.slice\<close>. A bound goes through \<open>ToIntegerOrInfinity\<close>: NaN is \<open>0\<close>, a
  finite number is truncated towards zero. A negative bound counts from the end, and
  the result is clamped to the array. A missing \<open>start\<close> is \<open>0\<close>, a missing \<open>end\<close> is
  the length. The positions of the range are copied, an element as an element and a
  hole as a hole.
\<close>

datatype integer_or_infinity = MinusInfinity | Integer int | PlusInfinity

fun ToIntegerOrInfinity :: "number \<Rightarrow> integer_or_infinity" where
  "ToIntegerOrInfinity NaN = Integer 0"
| "ToIntegerOrInfinity (Infinity s) = (if s then MinusInfinity else PlusInfinity)"
| "ToIntegerOrInfinity (Finite s m e) =
     Integer ((if s then - 1 else 1) *
              (if 0 \<le> e then int m * 2 ^ nat e else int (m div 2 ^ nat (- e))))"

fun relative_index :: "nat \<Rightarrow> integer_or_infinity \<Rightarrow> nat" where
  "relative_index len MinusInfinity = 0"
| "relative_index len PlusInfinity = len"
| "relative_index len (Integer i) =
     (if i < 0 then nat (max (int len + i) 0) else nat (min i (int len)))"

definition Array_slice :: "'a array \<Rightarrow> number option \<Rightarrow> number option \<Rightarrow> 'a array" where
  "Array_slice xs start end =
     (let len = length xs;
          k = relative_index len
                (case start of None \<Rightarrow> Integer 0 | Some x \<Rightarrow> ToIntegerOrInfinity x);
          final = (case end of None \<Rightarrow> len
                   | Some x \<Rightarrow> relative_index len (ToIntegerOrInfinity x))
      in take (final - k) (drop k xs))"

section \<open>The Vector class\<close>

text \<open>
  The field \<open>value\<close> is an array of numbers, which may have holes: the constructor
  stores what \<open>map\<close> returns, and \<open>map\<close> returns a hole for a hole. The list
  \<open>values\<close> of the wire format is built by \<open>map\<close> too.
\<close>

record Vector =
  value' :: "number array"

record DoubleValue =
  double_value :: number

record ArrayValue =
  values' :: "DoubleValue array"

record VectorDict =
  array_value :: ArrayValue
  meaning :: int
  exclude_from_indexes :: bool

definition VECTOR_VALUE :: int where
  "VECTOR_VALUE = 31"

text \<open>What \<open>equals\<close> can be handed at run time: a Vector instance, a primitive value or a
  plain array.\<close>

datatype argument = IsVector Vector | Primitive jsvalue | PlainArray "jsvalue array"

text \<open>
  The methods, in the order of the source. The parameter of the constructor is declared
  \<open>number[]\<close>; at run time its elements are any values, and the callback
  \<open>v => parseFloat(v.toString())\<close> is applied to each. \<open>get\<close> returns a number or
  \<open>undefined\<close> (\<open>None\<close>). \<open>slice\<close> passes the sliced array to the constructor.
  \<open>length_vec\<close> is the getter \<open>length\<close>, and \<open>toDict\<close> the method \<open>_toDict\<close>.
\<close>

definition constructor :: "jsvalue array \<Rightarrow> error + Vector" where
  "constructor value =
     (case array_map (\<lambda>v. case value_toString v of
                             Inl e \<Rightarrow> Inl e
                           | Inr s \<Rightarrow> Inr (parseFloat s)) value of
        Inl e \<Rightarrow> Inl e
      | Inr xs \<Rightarrow> Inr \<lparr>value' = xs\<rparr>)"

definition get :: "Vector \<Rightarrow> number \<Rightarrow> number option" where
  "get this index =
     (case array_index index of None \<Rightarrow> None | Some i \<Rightarrow> element_at (value' this) i)"

definition slice :: "Vector \<Rightarrow> number option \<Rightarrow> number option \<Rightarrow> error + Vector" where
  "slice this start end =
     constructor (map (map_option JNumber) (Array_slice (value' this) start end))"

definition length_vec :: "Vector \<Rightarrow> nat" where
  "length_vec this = length (value' this)"

definition equals :: "Vector \<Rightarrow> argument \<Rightarrow> error + bool" where
  "equals this other =
     (case other of
        IsVector that \<Rightarrow>
          Inr (length (value' this) = length (value' that) \<and>
               every (\<lambda>v i. strict_equals v (element_at (value' that) i)) (value' this))
      | _ \<Rightarrow> Inl (Error ''Cannot compare Vector to a non-Vector object.''))"

definition toString :: "Vector \<Rightarrow> string" where
  "toString this = ''Vector<'' @ join '', '' (value' this) @ ''>''"

definition toDict :: "Vector \<Rightarrow> VectorDict" where
  "toDict this =
     \<lparr>array_value = \<lparr>values' = map (map_option (\<lambda>v. \<lparr>double_value = v\<rparr>)) (value' this)\<rparr>,
      meaning = VECTOR_VALUE,
      exclude_from_indexes = True\<rparr>"

section \<open>Instances in a store\<close>

text \<open>
  A Vector is an object whose field \<open>value\<close> refers to an array, and an array is an
  object of its own. To say which objects a call writes or creates, the objects live in
  a store: a list of cells, an address being a position in it. Allocation appends a
  cell; nothing in the class removes one. \<open>invoke\<close> runs one method of the instance at
  \<open>this\<close> and returns the store after the call with the result. \<open>slice\<close> first
  allocates the array \<open>this.value.slice(start, end)\<close>, then \<open>new Vector\<close> allocates the
  array that \<open>map\<close> builds and the new instance.
\<close>

type_synonym address = nat

datatype cell = ArrayCell "number array" | VectorCell address

type_synonym store = "cell list"

definition allocate :: "store \<Rightarrow> cell \<Rightarrow> store \<times> address" where
  "allocate st c = (st @ [c], length st)"

text \<open>The cell at an address, if the store has one there.\<close>

definition index_at :: "store \<Rightarrow> address \<Rightarrow> cell option" where
  "index_at st a = (if a < length st then Some (st ! a) else None)"

definition vector_at :: "store \<Rightarrow> address \<Rightarrow> Vector option" where
  "vector_at st this =
     (case index_at st this of
        Some (VectorCell a) \<Rightarrow>
          (case index_at st a of
             Some (ArrayCell xs) \<Rightarrow> Some \<lparr>value' = xs\<rparr>
           | _ \<Rightarrow> None)
      | _ \<Rightarrow> None)"

datatype reference = Reference address | Value jsvalue

definition argument_of :: "store \<Rightarrow> reference \<Rightarrow> argument" where
  "argument_of st r =
     (case r of
        Value x \<Rightarrow> Primitive x
      | Reference a \<Rightarrow>
          (case vector_at st a of
             Some v \<Rightarrow> IsVector v
           | None \<Rightarrow>
               (case index_at st a of
                  Some (ArrayCell xs) \<Rightarrow> PlainArray (map (map_option JNumber) xs)
                | _ \<Rightarrow> Primitive JUndefined)))"

datatype call =
  Get number | Slice "number option" "number option" | Length | Equals reference
  | ToString | ToDict

datatype outcome =
  Returned_number "number option" | Returned_Vector address | Returned_length nat
  | Returned_boolean bool | Returned_string string | Returned_dict VectorDict

definition new_Vector :: "store \<Rightarrow> jsvalue array \<Rightarrow> store \<times> (error + address)" where
  "new_Vector st value =
     (case constructor value of
        Inl e \<Rightarrow> (st, Inl e)
      | Inr v \<Rightarrow>
          (let (st1, a) = allocate st (ArrayCell (value' v));
               (st2, this) = allocate st1 (VectorCell a)
           in (st2, Inr this)))"

definition invoke :: "store \<Rightarrow> address \<Rightarrow> call \<Rightarrow> store \<times> (error + outcome)" where
  "invoke st this c =
     (case vector_at st this of
        None \<Rightarrow> (st, Inl TypeError)
      | Some v \<Rightarrow>
          (case c of
             Get index \<Rightarrow> (st, Inr (Returned_number (get v index)))
           | Slice start end \<Rightarrow>
               (let (st1, tmp) = allocate st (ArrayCell (Array_slice (value' v) start end))
                in case new_Vector st1
                          (map (map_option JNumber) (Array_slice (value' v) start end)) of
                     (st2, r) \<Rightarrow> (st2, map_sum id Returned_Vector r))
           | Length \<Rightarrow> (st, Inr (Returned_length (length_vec v)))
           | Equals other \<Rightarrow> (st, map_sum id Returned_boolean (equals v (argument_of st other)))
           | ToString \<Rightarrow> (st, Inr (Returned_string (toString v)))
           | ToDict \<Rightarrow> (st, Inr (Returned_dict (toDict v)))))"

section \<open>Notions of the specification\<close>

text \<open>
  The sub-range in the words of the specification: a negative bound counts from the
  end, a bound out of range is clamped to \<open>[0, length]\<close>, and the positions from \<open>start\<close>
  up to, not including, \<open>end\<close> are kept.
\<close>

definition clamp_bound :: "nat \<Rightarrow> int \<Rightarrow> nat" where
  "clamp_bound len i = nat (max 0 (min (int len) (if i < 0 then int len + i else i)))"

definition sub_range :: "'a list \<Rightarrow> int \<Rightarrow> int \<Rightarrow> 'a list" where
  "sub_range xs start end =
     map (\<lambda>i. xs ! i) [clamp_bound (length xs) start ..< clamp_bound (length xs) end]"

text \<open>The positions at which an array has a hole.\<close>

definition holes :: "'a array \<Rightarrow> nat set" where
  "holes xs = set (filter (\<lambda>i. xs ! i = None) [0 ..< length xs])"

text \<open>
  A string is numeric at its start when, after leading white space and an optional
  sign, it starts with \<open>Infinity\<close>, with a digit, or with a dot that a digit follows.
\<close>

definition starts_with_digit :: "string \<Rightarrow> bool" where
  "starts_with_digit cs = (case cs of [] \<Rightarrow> False | c # _ \<Rightarrow> is_digit c)"

definition numeric_start :: "string \<Rightarrow> bool" where
  "numeric_start str =
     (let trimmed = dropWhile is_whitespace str;
          unsigned = (if take 1 trimmed = ''-'' \<or> take 1 trimmed = ''+''
                      then drop 1 trimmed else trimmed)
      in take 8 unsigned = ''Infinity'' \<or> starts_with_digit unsigned \<or>
         (take 1 unsigned = ''.'' \<and> starts_with_digit (drop 1 unsigned)))"

section \<open>Decimal digits and their value\<close>

text \<open>
  \<open>digits_of\<close> prints digits only, at least one, and \<open>digits_value\<close> reads them back.
\<close>

lemma digit_val_char: "d < 10 \<Longrightarrow> digit_val (digit_char d) = d"
  by (simp add: digit_val_def digit_char_def)

lemma is_digit_char: "d < 10 \<Longrightarrow> is_digit (digit_char d)"
  by (simp add: is_digit_def digit_char_def)

lemma digits_of_all: "list_all is_digit (digits_of n)"
proof (induction n rule: digits_of.induct)
  case (1 n)
  show ?case
  proof (cases "n < 10")
    case True
    then show ?thesis by (simp add: digits_of.simps [of n] is_digit_char)
  next
    case False
    with 1 show ?thesis by (simp add: digits_of.simps [of n] is_digit_char)
  qed
qed

lemma digits_of_nonempty: "digits_of n \<noteq> []"
  by (subst digits_of.simps) simp

lemma digits_value_snoc: "digits_value (cs @ [c]) = 10 * digits_value cs + digit_val c"
  by (simp add: digits_value_def)

lemma digits_value_Nil: "digits_value [] = 0"
  by (simp add: digits_value_def)

lemma digits_value_of: "digits_value (digits_of n) = n"
proof (induction n rule: digits_of.induct)
  case (1 n)
  show ?case
  proof (cases "n < 10")
    case True
    then show ?thesis
      using digits_value_snoc [of "[]" "digit_char n"]
      by (simp add: digits_of.simps [of n] digits_value_Nil digit_val_char)
  next
    case False
    with 1 show ?thesis
      by (simp add: digits_of.simps [of n] digits_value_snoc digit_val_char)
  qed
qed

lemma digits_value_append:
  "digits_value (xs @ ys) = digits_value xs * 10 ^ length ys + digits_value ys"
proof (induction ys rule: rev_induct)
  case Nil
  then show ?case by (simp add: digits_value_Nil)
next
  case (snoc y ys)
  have "digits_value (xs @ ys @ [y]) = 10 * digits_value (xs @ ys) + digit_val y"
    using digits_value_snoc [of "xs @ ys" y] by simp
  then show ?case by (simp add: snoc digits_value_snoc algebra_simps)
qed

lemma digits_value_zeros: "digits_value (replicate j CHR ''0'') = 0"
proof (induction j)
  case 0
  then show ?case by (simp add: digits_value_Nil)
next
  case (Suc j)
  have "replicate (Suc j) CHR ''0'' = replicate j CHR ''0'' @ [CHR ''0'']"
    by (simp add: replicate_append_same)
  then show ?case by (simp add: digits_value_snoc Suc digit_val_def del: replicate_Suc)
qed

section \<open>Reading what \<open>Number::toString\<close> prints\<close>

text \<open>
  \<open>parseFloat\<close> reads every string \<open>format_decimal d p\<close> prints, in each of its
  five shapes, as the number value of \<open>d * 10 ^ p\<close>.
\<close>

lemma not_digit_simps [simp]:
  "\<not> is_digit CHR ''.''" "\<not> is_digit CHR ''e''" "\<not> is_digit CHR ''I''"
  "\<not> is_digit CHR ''-''" "\<not> is_digit CHR ''+''" "is_digit CHR ''0''"
  by (simp_all add: is_digit_def)

lemma digit_not_special:
  "is_digit c \<Longrightarrow> c \<noteq> CHR ''.'' \<and> c \<noteq> CHR ''e'' \<and> c \<noteq> CHR ''I'' \<and> c \<noteq> CHR ''-'' \<and> c \<noteq> CHR ''+'' \<and> \<not> is_whitespace c"
  by (auto simp: is_digit_def is_whitespace_def)

lemma span_digits:
  "list_all is_digit xs \<Longrightarrow> ys = [] \<or> \<not> is_digit (hd ys) \<Longrightarrow>
   takeWhile is_digit (xs @ ys) = xs \<and> dropWhile is_digit (xs @ ys) = ys"
  by (cases ys) (auto simp: list_all_iff takeWhile_append2 dropWhile_append2)

lemma digits_of_Cons: "\<exists>c cs. digits_of n = c # cs \<and> is_digit c \<and> list_all is_digit cs"
  using digits_of_all [of n] digits_of_nonempty [of n] by (cases "digits_of n") auto

lemma takeWhile_digits_of [simp]: "takeWhile is_digit (digits_of n) = digits_of n"
  using digits_of_all [of n] by (simp add: list_all_iff)

lemma dropWhile_digits_of [simp]: "dropWhile is_digit (digits_of n) = []"
  using digits_of_all [of n] by (simp add: list_all_iff)

lemma exponent_part_signed:
  "exponent_part (CHR ''e'' # (if x < 0 then ''-'' else ''+'') @ digits_of (nat \<bar>x\<bar>)) = x"
  by (simp add: exponent_part_def digits_value_of)

lemma format_decimal_Cons: "\<exists>c cs. format_decimal d p = c # cs \<and> is_digit c"
proof -
  obtain c cs where D: "digits_of d = c # cs" "is_digit c"
    using digits_of_Cons by blast
  show ?thesis
    by (auto simp: format_decimal_def Let_def D take_Cons' nat_eq_iff)
qed

lemma literal_digits_tail:
  assumes xs: "list_all is_digit xs" "xs \<noteq> []"
    and t: "t = [] \<or> hd t = CHR ''e''"
  shows "unsigned_literal sign (xs @ t) =
           Number_of_decimal sign (digits_value xs) (exponent_part t)"
proof -
  obtain c cs where c: "xs = c # cs" "is_digit c"
    using xs by (cases xs) auto
  have inf: "take 8 (xs @ t) \<noteq> ''Infinity''"
    using c digit_not_special [of c] by (auto simp: take_Cons')
  have nd: "t = [] \<or> \<not> is_digit (hd t)"
    using t by auto
  have sp: "takeWhile is_digit (xs @ t) = xs" "dropWhile is_digit (xs @ t) = t"
    using span_digits [OF xs(1) nd] by simp_all
  have dot: "take 1 t \<noteq> ''.''"
    using t by (cases t) auto
  show ?thesis
    unfolding unsigned_literal_def Let_def sp using inf dot xs(2) by simp
qed

lemma literal_fraction_tail:
  assumes xs: "list_all is_digit xs" "xs \<noteq> []"
    and ys: "list_all is_digit ys"
    and t: "t = [] \<or> hd t = CHR ''e''"
  shows "unsigned_literal sign (xs @ CHR ''.'' # ys @ t) =
           Number_of_decimal sign (digits_value (xs @ ys))
             (exponent_part t - int (length ys))"
proof -
  obtain c cs where c: "xs = c # cs" "is_digit c"
    using xs by (cases xs) auto
  have inf: "take 8 (xs @ CHR ''.'' # ys @ t) \<noteq> ''Infinity''"
    using c digit_not_special [of c] by (auto simp: take_Cons')
  have sp: "takeWhile is_digit (xs @ CHR ''.'' # ys @ t) = xs"
    "dropWhile is_digit (xs @ CHR ''.'' # ys @ t) = CHR ''.'' # ys @ t"
    using span_digits [OF xs(1), of "CHR ''.'' # ys @ t"] by simp_all
  have nd: "t = [] \<or> \<not> is_digit (hd t)"
    using t by auto
  have sp2: "takeWhile is_digit (ys @ t) = ys" "dropWhile is_digit (ys @ t) = t"
    using span_digits [OF ys nd] by simp_all
  show ?thesis
    unfolding unsigned_literal_def Let_def sp using inf xs(2) by (simp add: sp2)
qed

lemma exponent_part_Nil: "exponent_part [] = 0"
  by (simp add: exponent_part_def)

lemma Number_of_decimal_shift:
  "0 \<le> p \<Longrightarrow> Number_of_decimal sign (d * 10 ^ nat p) 0 = Number_of_decimal sign d p"
  by (simp add: Number_of_decimal_def)

lemma literal_format_decimal:
  "unsigned_literal sign (format_decimal d p) = Number_of_decimal sign d p"
proof -
  define ds where "ds = digits_of d"
  define k where "k = length ds"
  define n where "n = int k + p"
  have ds: "list_all is_digit ds" "ds \<noteq> []" "digits_value ds = d"
    by (simp_all add: ds_def digits_of_all digits_of_nonempty digits_value_of)
  have k: "0 < k" using ds(2) by (simp add: k_def)
  let ?ex = "CHR ''e'' # (if n - 1 < 0 then ''-'' else ''+'') @ digits_of (nat \<bar>n - 1\<bar>)"
  have fd: "format_decimal d p =
     (if int k \<le> n \<and> n \<le> 21 then ds @ replicate (nat (n - int k)) CHR ''0''
      else if 0 < n \<and> n \<le> 21 then take (nat n) ds @ ''.'' @ drop (nat n) ds
      else if - 6 < n \<and> n \<le> 0 then ''0.'' @ replicate (nat (- n)) CHR ''0'' @ ds
      else (if k = 1 then ds else take 1 ds @ ''.'' @ drop 1 ds) @ ''e'' @
           (if n - 1 < 0 then ''-'' else ''+'') @ digits_of (nat \<bar>n - 1\<bar>))"
    by (simp only: format_decimal_def Let_def ds_def k_def n_def)
  consider (int) "int k \<le> n" "n \<le> 21"
    | (frac) "\<not> (int k \<le> n \<and> n \<le> 21)" "0 < n" "n \<le> 21"
    | (small) "\<not> (int k \<le> n \<and> n \<le> 21)" "\<not> (0 < n \<and> n \<le> 21)" "- 6 < n" "n \<le> 0"
    | (exp1) "\<not> (int k \<le> n \<and> n \<le> 21)" "\<not> (0 < n \<and> n \<le> 21)" "\<not> (- 6 < n \<and> n \<le> 0)" "k = 1"
    | (expk) "\<not> (int k \<le> n \<and> n \<le> 21)" "\<not> (0 < n \<and> n \<le> 21)" "\<not> (- 6 < n \<and> n \<le> 0)" "k \<noteq> 1"
    by blast
  then show ?thesis
  proof cases
    case int
    then have f: "format_decimal d p = (ds @ replicate (nat (n - int k)) CHR ''0'') @ []"
      by (simp add: fd)
    have all: "list_all is_digit (ds @ replicate (nat (n - int k)) CHR ''0'')"
      using ds(1) by (auto simp: list_all_iff)
    have "unsigned_literal sign (format_decimal d p) =
            Number_of_decimal sign (d * 10 ^ nat (n - int k)) 0"
      unfolding f using literal_digits_tail [OF all, of "[]" sign] ds(2,3)
      by (simp add: digits_value_append digits_value_zeros exponent_part_Nil)
    also have "\<dots> = Number_of_decimal sign d p"
      using int Number_of_decimal_shift [of p sign d] by (simp add: n_def)
    finally show ?thesis .
  next
    case frac
    then have nk: "nat n < k" "0 < nat n" by auto
    have f: "format_decimal d p = take (nat n) ds @ CHR ''.'' # drop (nat n) ds @ []"
      using frac by (auto simp: fd)
    have a1: "list_all is_digit (take (nat n) ds)" "list_all is_digit (drop (nat n) ds)"
      using ds(1) by (auto simp: list_all_iff dest: in_set_takeD in_set_dropD)
    have a2: "take (nat n) ds \<noteq> []"
      using nk ds(2) by (simp add: k_def)
    have len: "int (length (drop (nat n) ds)) = - p"
      using nk by (simp add: k_def n_def)
    show ?thesis
      unfolding f using literal_fraction_tail [OF a1(1) a2 a1(2), of "[]" sign] ds(3) len
      by (simp add: exponent_part_Nil)
  next
    case small
    have f: "format_decimal d p = ''0'' @ CHR ''.'' # (replicate (nat (- n)) CHR ''0'' @ ds) @ []"
      using small by (auto simp: fd)
    have a1: "list_all is_digit ''0''" "''0'' \<noteq> []"
      "list_all is_digit (replicate (nat (- n)) CHR ''0'' @ ds)"
      using ds(1) by (auto simp: list_all_iff)
    have v: "digits_value (''0'' @ replicate (nat (- n)) CHR ''0'' @ ds) = d"
      using digits_value_append [of "CHR ''0'' # replicate (nat (- n)) CHR ''0''" ds]
        digits_value_zeros [of "Suc (nat (- n))"] ds(3)
      by simp
    have len: "- int (length (replicate (nat (- n)) CHR ''0'' @ ds)) = p"
      using small by (simp add: k_def n_def)
    show ?thesis
      unfolding f using literal_fraction_tail [OF a1, of "[]" sign] len
      by (simp only: v exponent_part_Nil) simp
  next
    case exp1
    have f: "format_decimal d p = ds @ ?ex"
      using exp1 by (auto simp: fd)
    have "exponent_part ?ex = n - 1" by (rule exponent_part_signed)
    moreover have "n - 1 = p" using exp1 by (simp add: n_def)
    ultimately show ?thesis
      unfolding f using literal_digits_tail [OF ds(1,2), of ?ex sign] ds(3) by simp
  next
    case expk
    then have k2: "1 < k" using k by simp
    have f: "format_decimal d p = take 1 ds @ CHR ''.'' # drop 1 ds @ ?ex"
      using expk by (auto simp: fd)
    have a1: "list_all is_digit (take 1 ds)" "list_all is_digit (drop 1 ds)"
      using ds(1) by (auto simp: list_all_iff dest: in_set_takeD in_set_dropD)
    have a2: "take 1 ds \<noteq> []"
      using ds(2) by simp
    have "exponent_part ?ex = n - 1" by (rule exponent_part_signed)
    moreover have "n - 1 - int (length (drop 1 ds)) = p" using k2 by (simp add: n_def k_def)
    ultimately show ?thesis
      unfolding f using literal_fraction_tail [OF a1(1) a2 a1(2), of ?ex sign] ds(3)
      by simp
  qed
qed

lemma parseFloat_format_decimal:
  "parseFloat ((if s then ''-'' else []) @ format_decimal d p) = Number_of_decimal s d p"
proof -
  obtain c cs where f: "format_decimal d p = c # cs" "is_digit c"
    using format_decimal_Cons by blast
  note c = digit_not_special [OF f(2)]
  have minus: "\<not> is_whitespace CHR ''-''" by (simp add: is_whitespace_def)
  show ?thesis
  proof (cases s)
    case True
    then show ?thesis
      using literal_format_decimal [of True d p] minus by (simp add: parseFloat_def f)
  next
    case False
    then show ?thesis
      using literal_format_decimal [of False d p] c by (simp add: parseFloat_def f)
  qed
qed

section \<open>Rounding is exact on a binary64 value\<close>

text \<open>
  \<open>Number_of\<close> returns a binary64 value when its quotient is that value, so the exact
  decimal expansion of a value is read back as the value, and so is every decimal
  \<open>shortest\<close> returns. Hence \<open>parseFloat (Number_toString x)\<close> is \<open>x\<close> for every
  binary64 value but \<open>-0\<close>, which prints as \<open>0\<close>.
\<close>

lemma bit_length_le_iff: "bit_length n \<le> k \<longleftrightarrow> n < 2 ^ k"
proof (induction k arbitrary: n)
  case 0
  show ?case by (subst bit_length.simps) simp
next
  case (Suc k)
  show ?case
  proof (cases "n = 0")
    case True
    then show ?thesis by (subst bit_length.simps) simp
  next
    case False
    have "bit_length n = Suc (bit_length (n div 2))"
      using False by (subst bit_length.simps) simp
    moreover have "n div 2 < 2 ^ k \<longleftrightarrow> n < 2 ^ Suc k"
      by auto
    ultimately show ?thesis using Suc [of "n div 2"] by simp
  qed
qed

lemma bit_length_eqI: "2 ^ k \<le> n \<Longrightarrow> n < 2 ^ Suc k \<Longrightarrow> bit_length n = Suc k"
  using bit_length_le_iff [of n k] bit_length_le_iff [of n "Suc k"] by simp

lemma round_half_even_exact: "0 < c \<Longrightarrow> round_half_even (m * c) c = m"
  by (simp add: round_half_even_def)

lemma Number_of_exact:
  assumes d: "is_double (Finite s m e)"
    and t: "a * 2 ^ 1074 = m * 2 ^ nat (e + 1074) * b"
    and b: "0 < b"
  shows "Number_of s a b = Finite s m e"
proof -
  define E where "E = nat (e + 1074)"
  define T where "T = a * 2 ^ 1074"
  have E: "int E = e + 1074" "E \<le> 2045"
    using d by (auto simp: E_def)
  have m53: "m < 2 ^ 53" using d by simp
  have T: "T = m * 2 ^ E * b"
    using t by (simp only: T_def E_def)
  have q: "T div b = m * 2 ^ E"
    using b by (simp add: T)
  have unfold: "Number_of s a b =
     (if round_half_even T (b * 2 ^ (bit_length (T div b) - 53)) = 2 ^ 53
      then (if 2045 < bit_length (T div b) - 53 + 1 then Infinity s
            else Finite s (2 ^ 52) (int (bit_length (T div b) - 53 + 1) - 1074))
      else (if 2045 < bit_length (T div b) - 53 then Infinity s
            else Finite s (round_half_even T (b * 2 ^ (bit_length (T div b) - 53)))
                   (int (bit_length (T div b) - 53) - 1074)))"
    by (simp only: Number_of_def Let_def T_def)
  show ?thesis
  proof (cases "2 ^ 52 \<le> m")
    case True
    have "2 ^ (52 + E) \<le> m * 2 ^ E" "m * 2 ^ E < 2 ^ Suc (52 + E)"
      using True m53 by (simp_all add: power_add)
    then have "bit_length (m * 2 ^ E) = Suc (52 + E)"
      by (rule bit_length_eqI)
    then have sh: "bit_length (T div b) - 53 = E"
      by (simp add: q)
    have "T = m * (b * 2 ^ E)"
      by (simp add: T mult_ac)
    then have r: "round_half_even T (b * 2 ^ E) = m"
      using b round_half_even_exact [of "b * 2 ^ E" m] by simp
    show ?thesis
      unfolding unfold sh r using m53 E by simp
  next
    case False
    then have e: "e = - 1074" and E0: "E = 0"
      using d by (simp_all add: E_def)
    have "bit_length m \<le> 52"
      using False by (simp add: bit_length_le_iff)
    then have sh: "bit_length (T div b) - 53 = 0"
      by (simp add: q E0)
    have r: "round_half_even T (b * 2 ^ 0) = m"
      using b round_half_even_exact [of b m] by (simp add: T E0)
    show ?thesis
      unfolding unfold sh r using m53 e by simp
  qed
qed

lemma Number_of_exact_decimal:
  assumes d: "is_double (Finite s m e)"
  shows "Number_of_decimal s (fst (exact_decimal m e)) (snd (exact_decimal m e)) = Finite s m e"
proof (cases "0 \<le> e")
  case True
  have "m * 2 ^ nat e * 2 ^ 1074 = m * 2 ^ nat (e + 1074) * 1"
    using True by (simp add: nat_add_distrib power_add)
  then have "Number_of s (m * 2 ^ nat e) 1 = Finite s m e"
    using Number_of_exact [OF d, of "m * 2 ^ nat e" 1] by simp
  then show ?thesis
    using True by (simp add: exact_decimal_def Number_of_decimal_def)
next
  case False
  define j where "j = nat (- e)"
  have j: "j \<le> 1074" "nat (e + 1074) = 1074 - j"
    using d False by (auto simp: j_def)
  have "(2::nat) ^ 1074 = 2 ^ (1074 - j) * 2 ^ j"
    using j(1) by (simp flip: power_add)
  then have "m * 5 ^ j * 2 ^ 1074 = m * 2 ^ (1074 - j) * (2 ^ j * 5 ^ j)"
    by (simp add: mult_ac)
  also have "(2::nat) ^ j * 5 ^ j = 10 ^ j"
    by (simp flip: power_mult_distrib)
  finally have "Number_of s (m * 5 ^ j) (10 ^ j) = Finite s m e"
    using Number_of_exact [OF d, of "m * 5 ^ j" "10 ^ j"] j by simp
  then show ?thesis
    using False by (simp add: exact_decimal_def Number_of_decimal_def j_def)
qed

lemma shortest_valid:
  "is_double (Finite s m e) \<Longrightarrow> shortest fuel k s m e = (d, p) \<Longrightarrow>
   Number_of_decimal s d p = Finite s m e"
proof (induction fuel arbitrary: k)
  case 0
  then show ?case using Number_of_exact_decimal [of s m e] by simp
next
  case (Suc fuel)
  define a where "a = (if 0 \<le> e then m * 2 ^ nat e else m)"
  define b where "b = (if 0 \<le> e then 1 else (2::nat) ^ nat (- e))"
  define cs where "cs = candidates a b (decimal_exponent a b) k"
  show ?case
  proof (cases "find (\<lambda>(d, p). Number_of_decimal s d p = Finite s m e) cs")
    case None
    then have "shortest (Suc fuel) k s m e = shortest fuel (Suc k) s m e"
      by (simp add: Let_def a_def b_def cs_def)
    then show ?thesis using Suc by simp
  next
    case (Some c)
    then have "shortest (Suc fuel) k s m e = c"
      by (simp add: Let_def a_def b_def cs_def)
    then have "c = (d, p)" using Suc.prems by simp
    then show ?thesis using Some by (auto simp: find_Some_iff)
  qed
qed

lemma digit_char_0: "digit_char 0 = CHR ''0''"
proof -
  have "char_of (of_char CHR ''0'' :: nat) = CHR ''0''"
    by (rule char_of_char)
  then show ?thesis by (simp add: digit_char_def)
qed

lemma digits_of_0: "digits_of 0 = ''0''"
  by (simp add: digits_of.simps [of 0] digit_char_0)

lemma parseFloat_Number_toString:
  assumes "is_double x"
  shows "parseFloat (Number_toString x) = (if is_zero x then Finite False 0 (- 1074) else x)"
proof (cases x)
  case NaN
  then show ?thesis
    by (simp add: parseFloat_def unsigned_literal_def is_whitespace_def is_digit_def)
next
  case (Infinity s)
  then show ?thesis
    by (simp add: parseFloat_def unsigned_literal_def is_whitespace_def)
next
  case (Finite s m e)
  show ?thesis
  proof (cases "m = 0")
    case True
    have "parseFloat ''0'' = Number_of_decimal False 0 0"
      using parseFloat_format_decimal [of False 0 0]
      by (simp add: format_decimal_def digits_of_0)
    then show ?thesis
      using True Finite
      by (simp add: Number_of_decimal_def Number_of_def round_half_even_def bit_length.simps [of 0])
  next
    case False
    obtain d p where sh: "shortest 17 1 s m e = (d, p)"
      by (cases "shortest 17 1 s m e")
    have "Number_of_decimal s d p = Finite s m e"
      using shortest_valid [OF _ sh] assms Finite by simp
    then show ?thesis
      using False Finite sh parseFloat_format_decimal [of s d p] by simp
  qed
qed

section \<open>Integers as numbers\<close>

text \<open>
  An integer below \<open>2 ^ 53\<close> in magnitude is a binary64 value: \<open>number_of_int\<close>
  normalises it to a 53-bit significand. As an index it names its own position, and
  \<open>ToIntegerOrInfinity\<close> gives it back.
\<close>

lemma bit_length_bounds:
  assumes "0 < n"
  shows "2 ^ (bit_length n - 1) \<le> n \<and> n < 2 ^ bit_length n \<and> 0 < bit_length n"
proof -
  have pos: "0 < bit_length n"
    using assms by (subst bit_length.simps) simp
  have "n < 2 ^ bit_length n"
    using bit_length_le_iff [of n "bit_length n"] by simp
  moreover have "\<not> n < 2 ^ (bit_length n - 1)"
  proof
    assume "n < 2 ^ (bit_length n - 1)"
    then have "bit_length n \<le> bit_length n - 1"
      by (simp only: bit_length_le_iff)
    with pos show False by simp
  qed
  ultimately show ?thesis using pos by simp
qed

lemma normalised_bounds:
  assumes "0 < n" "n < 2 ^ 53"
  shows "2 ^ 52 \<le> n * 2 ^ (53 - bit_length n) \<and> n * 2 ^ (53 - bit_length n) < 2 ^ 53
         \<and> 0 < bit_length n \<and> bit_length n \<le> 53"
proof -
  define L where "L = bit_length n"
  have L: "2 ^ (L - 1) \<le> n" "n < 2 ^ L" "0 < L"
    using bit_length_bounds [OF assms(1)] by (simp_all add: L_def)
  have L53: "L \<le> 53"
    using assms(2) by (simp add: L_def bit_length_le_iff)
  have "L - 1 + (53 - L) = 52" "L + (53 - L) = 53"
    using L(3) L53 by simp_all
  then have p: "(2::nat) ^ (L - 1) * 2 ^ (53 - L) = 2 ^ 52" "(2::nat) ^ L * 2 ^ (53 - L) = 2 ^ 53"
    by (simp_all only: flip: power_add)
  have "2 ^ (L - 1) * 2 ^ (53 - L) \<le> n * 2 ^ (53 - L)"
    using L(1) by (rule mult_le_mono1)
  then have lo: "2 ^ 52 \<le> n * 2 ^ (53 - L)"
    by (simp only: p)
  have "n * 2 ^ (53 - L) < 2 ^ L * 2 ^ (53 - L)"
    using L(2) by simp
  then have hi: "n * 2 ^ (53 - L) < 2 ^ 53"
    by (simp only: p)
  show ?thesis
    using lo hi L(3) L53 unfolding L_def by blast
qed

lemma Number_of_nat:
  assumes "0 < n" "n < 2 ^ 53"
  shows "Number_of s n 1 = Finite s (n * 2 ^ (53 - bit_length n)) (int (bit_length n) - 53)"
proof -
  define L where "L = bit_length n"
  have b: "2 ^ 52 \<le> n * 2 ^ (53 - L)" "n * 2 ^ (53 - L) < 2 ^ 53" "0 < L" "L \<le> 53"
    using normalised_bounds [OF assms] by (simp_all add: L_def)
  have d: "is_double (Finite s (n * 2 ^ (53 - L)) (int L - 53))"
    using b by simp
  have "nat (int L - 53 + 1074) = L + 1021"
    by simp
  moreover have "53 - L + (L + 1021) = 1074"
    using b(4) by simp
  then have "(2::nat) ^ 1074 = 2 ^ (53 - L) * 2 ^ (L + 1021)"
    by (simp only: flip: power_add)
  ultimately have "n * 2 ^ 1074 = n * 2 ^ (53 - L) * 2 ^ nat (int L - 53 + 1074) * 1"
    by (simp only: mult.assoc mult_1_right)
  then show ?thesis
    using Number_of_exact [OF d, of n 1] by (simp only: L_def)
qed

lemma number_of_int_0: "number_of_int 0 = positive_zero"
  by (simp add: number_of_int_def Number_of_def round_half_even_def bit_length.simps [of 0])

lemma number_of_int_eq:
  assumes "i \<noteq> 0" "\<bar>i\<bar> < 2 ^ 53"
  shows "number_of_int i =
           Finite (i < 0) (nat \<bar>i\<bar> * 2 ^ (53 - bit_length (nat \<bar>i\<bar>)))
             (int (bit_length (nat \<bar>i\<bar>)) - 53)"
proof -
  have "0 < nat \<bar>i\<bar>" "nat \<bar>i\<bar> < 2 ^ 53"
    using assms by (simp_all add: nat_less_iff)
  then show ?thesis
    unfolding number_of_int_def by (rule Number_of_nat)
qed

lemma is_double_number_of_int:
  assumes "\<bar>i\<bar> < 2 ^ 53"
  shows "is_double (number_of_int i)"
proof (cases "i = 0")
  case True
  then show ?thesis by (simp add: number_of_int_0)
next
  case False
  have n: "0 < nat \<bar>i\<bar>" "nat \<bar>i\<bar> < 2 ^ 53"
    using assms False by (simp_all add: nat_less_iff)
  show ?thesis
    using number_of_int_eq [OF False assms] normalised_bounds [OF n] by simp
qed

lemma array_index_number_of_int:
  assumes "\<bar>i\<bar> < 2 ^ 53"
  shows "array_index (number_of_int i) = (if 0 \<le> i then Some (nat i) else None)"
proof (cases "i = 0")
  case True
  then show ?thesis by (simp add: number_of_int_0)
next
  case False
  define n where "n = nat \<bar>i\<bar>"
  define L where "L = bit_length n"
  have n: "0 < n" "n < 2 ^ 53"
    using assms False by (simp_all add: n_def nat_less_iff)
  have L53: "L \<le> 53"
    using n(2) by (simp add: L_def bit_length_le_iff)
  have eq: "number_of_int i = Finite (i < 0) (n * 2 ^ (53 - L)) (int L - 53)"
    using number_of_int_eq [OF False assms] by (simp add: n_def L_def)
  show ?thesis
  proof (cases "i < 0")
    case True
    then show ?thesis using n(1) by (simp add: eq)
  next
    case False
    then have "nat i = n" by (simp add: n_def)
    moreover have "nat (53 - int L) = 53 - L" by simp
    ultimately show ?thesis
      using False n(1) L53 by (simp add: eq)
  qed
qed

lemma ToIntegerOrInfinity_number_of_int:
  assumes "\<bar>i\<bar> < 2 ^ 53"
  shows "ToIntegerOrInfinity (number_of_int i) = Integer i"
proof (cases "i = 0")
  case True
  then show ?thesis by (simp add: number_of_int_0)
next
  case False
  define n where "n = nat \<bar>i\<bar>"
  define L where "L = bit_length n"
  have n: "0 < n" "n < 2 ^ 53"
    using assms False by (simp_all add: n_def nat_less_iff)
  have L53: "L \<le> 53"
    using n(2) by (simp add: L_def bit_length_le_iff)
  have eq: "number_of_int i = Finite (i < 0) (n * 2 ^ (53 - L)) (int L - 53)"
    using number_of_int_eq [OF False assms] by (simp add: n_def L_def)
  have sh: "nat (53 - int L) = 53 - L" by simp
  have "int n = \<bar>i\<bar>" by (simp add: n_def)
  then show ?thesis
    using L53 by (auto simp: eq sh)
qed

section \<open>Every rounded value is a binary64 value\<close>

text \<open>
  Whatever its argument, \<open>Number_of\<close> returns a canonical representation, and so does
  \<open>parseFloat\<close>.
\<close>

lemma round_half_even_cases:
  "round_half_even a b = a div b \<or> round_half_even a b = a div b + 1"
  by (simp add: round_half_even_def Let_def)

lemma is_double_Number_of:
  assumes b: "0 < b"
  shows "is_double (Number_of s a b)"
proof -
  define T where "T = a * 2 ^ 1074"
  define q where "q = T div b"
  define sh where "sh = bit_length q - 53"
  define m where "m = round_half_even T (b * 2 ^ sh)"
  have unfold: "Number_of s a b =
     (if m = 2 ^ 53
      then (if 2045 < sh + 1 then Infinity s else Finite s (2 ^ 52) (int (sh + 1) - 1074))
      else (if 2045 < sh then Infinity s else Finite s m (int sh - 1074)))"
    by (simp only: Number_of_def Let_def T_def q_def sh_def m_def)
  have fl: "T div (b * 2 ^ sh) = q div 2 ^ sh"
    by (simp add: q_def div_mult2_eq)
  have m: "m = q div 2 ^ sh \<or> m = q div 2 ^ sh + 1"
    using round_half_even_cases [of T "b * 2 ^ sh"] by (simp only: m_def fl)
  have hi: "q div 2 ^ sh < 2 ^ 53"
  proof -
    have "bit_length q \<le> 53 + sh" by (simp add: sh_def)
    then have "q < 2 ^ (53 + sh)" using bit_length_le_iff [of q "53 + sh"] by blast
    then have "q < 2 ^ 53 * 2 ^ sh" by (simp only: power_add)
    then show ?thesis by (simp add: less_mult_imp_div_less)
  qed
  have lo: "2 ^ 52 \<le> q div 2 ^ sh" if "0 < sh"
  proof -
    from that have "\<not> bit_length q \<le> 52 + sh" by (simp add: sh_def)
    then have "\<not> q < 2 ^ (52 + sh)" using bit_length_le_iff [of q "52 + sh"] by blast
    then have "2 ^ 52 * 2 ^ sh \<le> q" by (simp only: power_add not_less)
    then show ?thesis by (simp add: less_eq_div_iff_mult_less_eq)
  qed
  have m53: "m \<le> 2 ^ 53"
    using m hi by auto
  have m52: "2 ^ 52 \<le> m" if "0 < sh"
    using m lo [OF that] by auto
  show ?thesis
  proof (cases "m = 2 ^ 53")
    case True
    then show ?thesis by (simp add: unfold)
  next
    case False
    then have "m < 2 ^ 53" using m53 by simp
    moreover have "2 ^ 52 \<le> m \<or> sh = 0" using m52 by auto
    ultimately show ?thesis using False by (auto simp: unfold)
  qed
qed

lemma is_double_Number_of_decimal: "is_double (Number_of_decimal s d p)"
  by (simp add: Number_of_decimal_def is_double_Number_of)

lemma is_double_parseFloat: "is_double (parseFloat str)"
proof -
  have "is_double (unsigned_literal s r)" for s r
    by (simp add: unsigned_literal_def Let_def is_double_Number_of_decimal)
  then show ?thesis by (simp add: parseFloat_def Let_def)
qed

section \<open>Strict equality of numbers\<close>

lemma number_equal_iff:
  "number_equal x y = (x \<noteq> NaN \<and> y \<noteq> NaN \<and> (x = y \<or> (is_zero x \<and> is_zero y)))"
  by (cases x; cases y) auto

lemma number_equal_refl: "number_equal x x = (x \<noteq> NaN)"
  by (simp add: number_equal_iff)

lemma number_equal_sym: "number_equal x y = number_equal y x"
  by (auto simp: number_equal_iff)

lemma number_equal_same_value:
  assumes "is_double x" "x \<noteq> NaN" "x \<noteq> negative_zero"
    and "is_double y" "y \<noteq> NaN" "y \<noteq> negative_zero"
  shows "number_equal x y \<longleftrightarrow> x = y"
proof -
  have "x = positive_zero" if "is_zero x"
    using that assms(1,3) by (cases x) auto
  moreover have "y = positive_zero" if "is_zero y"
    using that assms(4,6) by (cases y) auto
  ultimately show ?thesis
    using assms(2,5) by (auto simp: number_equal_iff)
qed

lemma strict_equals_iff: "strict_equals x w = (\<exists>y. w = Some y \<and> number_equal x y)"
  by (cases w) simp_all

text \<open>\<open>every\<close> asks the callback about the elements, and about nothing else.\<close>

lemma every_from_nth:
  "every_from i p xs = (\<forall>j<length xs. \<forall>x. xs ! j = Some x \<longrightarrow> p x (i + j))"
  by (induction i p xs rule: every_from.induct) (simp_all add: All_less_Suc2)

lemma equals_Vector:
  "equals v1 (IsVector v2) =
     Inr (length (value' v1) = length (value' v2) \<and>
          (\<forall>i<length (value' v1). \<forall>x. value' v1 ! i = Some x \<longrightarrow>
              (\<exists>y. value' v2 ! i = Some y \<and> number_equal x y)))"
  by (auto simp: equals_def every_def every_from_nth element_at_def strict_equals_iff)

lemma equals_dense:
  "equals \<lparr>value' = map Some xs\<rparr> (IsVector \<lparr>value' = map Some ys\<rparr>) =
     Inr (length xs = length ys \<and> (\<forall>i<length xs. number_equal (xs ! i) (ys ! i)))"
  by (auto simp: equals_Vector)

lemma holes_iff: "i \<in> holes xs \<longleftrightarrow> i < length xs \<and> xs ! i = None"
  by (auto simp: holes_def)

section \<open>The constructor and \<open>slice\<close>\<close>

text \<open>
  \<open>array_map\<close> fails exactly when the callback fails on an element, and keeps the
  holes where they are. On numbers the constructor never fails and stores each element
  as it is, \<open>-0\<close> as \<open>+0\<close>. \<open>Array_slice\<close> on integer bounds is the sub-range of the
  specification, and a call of a method only ever appends to the store.
\<close>

lemma array_map_Inr:
  "array_map f xs = Inr ys \<Longrightarrow>
   length ys = length xs \<and>
   (\<forall>i<length xs. (xs ! i = None \<longrightarrow> ys ! i = None) \<and>
        (\<forall>x. xs ! i = Some x \<longrightarrow> (\<exists>y. f x = Inr y \<and> ys ! i = Some y)))"
proof (induction xs arbitrary: ys)
  case Nil
  then show ?case by simp
next
  case (Cons a xs)
  show ?case
  proof (cases a)
    case None
    with Cons.prems obtain zs where zs: "array_map f xs = Inr zs" "ys = None # zs"
      by (auto split: sum.splits)
    with Cons.IH [OF zs(1)] None show ?thesis
      by (simp add: All_less_Suc2)
  next
    case (Some x)
    with Cons.prems obtain y zs where
      y: "f x = Inr y" "array_map f xs = Inr zs" "ys = Some y # zs"
      by (auto split: sum.splits)
    with Cons.IH [OF y(2)] Some show ?thesis
      by (simp add: All_less_Suc2)
  qed
qed

lemma Some_map_option: "Some y = map_option f x \<longleftrightarrow> (\<exists>z. x = Some z \<and> y = f z)"
  by (cases x) auto

lemma array_map_Inl:
  "(\<exists>e. array_map f xs = Inl e) \<longleftrightarrow> (\<exists>x. Some x \<in> set xs \<and> (\<exists>e. f x = Inl e))"
proof (induction xs)
  case Nil
  then show ?case by simp
next
  case (Cons a xs)
  show ?case
  proof (cases a)
    case None
    then show ?thesis using Cons by (cases "array_map f xs") auto
  next
    case (Some x)
    show ?thesis
    proof (cases "f x")
      case (Inl e)
      then show ?thesis using Some by auto
    next
      case (Inr y)
      have "(\<exists>e. array_map f (a # xs) = Inl e) \<longleftrightarrow> (\<exists>e. array_map f xs = Inl e)"
        using Some Inr by (cases "array_map f xs") auto
      also have "\<dots> \<longleftrightarrow> (\<exists>z. Some z \<in> set xs \<and> (\<exists>e. f z = Inl e))"
        by (rule Cons)
      also have "\<dots> \<longleftrightarrow> (\<exists>z. Some z \<in> set (a # xs) \<and> (\<exists>e. f z = Inl e))"
        using Some Inr by auto
      finally show ?thesis .
    qed
  qed
qed

lemma array_map_total:
  "(\<And>x. Some x \<in> set xs \<Longrightarrow> f x = Inr (g x)) \<Longrightarrow>
   array_map f xs = Inr (map (map_option g) xs)"
proof (induction xs)
  case Nil
  then show ?case by simp
next
  case (Cons a xs)
  then have "array_map f xs = Inr (map (map_option g) xs)" by simp
  then show ?case using Cons.prems by (cases a) simp_all
qed

lemma array_map_holes: "array_map f (replicate n None) = Inr (replicate n None)"
  by (induction n) simp_all

lemma array_map_error:
  "array_map f xs = Inl e \<Longrightarrow> \<exists>x. Some x \<in> set xs \<and> f x = Inl e"
proof (induction xs)
  case Nil
  then show ?case by simp
next
  case (Cons a xs)
  show ?case
  proof (cases a)
    case None
    with Cons.prems have "array_map f xs = Inl e"
      by (cases "array_map f xs") auto
    from Cons.IH [OF this] show ?thesis by auto
  next
    case (Some x)
    show ?thesis
    proof (cases "f x")
      case (Inl e')
      then show ?thesis using Some Cons.prems by auto
    next
      case (Inr y)
      with Some Cons.prems have "array_map f xs = Inl e"
        by (cases "array_map f xs") auto
      from Cons.IH [OF this] show ?thesis by auto
    qed
  qed
qed

lemma constructor_numbers:
  assumes "\<forall>x. Some x \<in> set xs \<longrightarrow> is_double x"
  shows "constructor (map (map_option JNumber) xs) =
           Inr \<lparr>value' = map (map_option (\<lambda>x. if is_zero x then Finite False 0 (- 1074) else x)) xs\<rparr>"
proof -
  let ?f = "\<lambda>v. case value_toString v of Inl e \<Rightarrow> Inl e | Inr s \<Rightarrow> Inr (parseFloat s)"
  let ?g = "\<lambda>v. case v of JNumber x \<Rightarrow> (if is_zero x then Finite False 0 (- 1074) else x) | _ \<Rightarrow> NaN"
  have "array_map ?f (map (map_option JNumber) xs) =
          Inr (map (map_option ?g) (map (map_option JNumber) xs))"
  proof (rule array_map_total)
    fix v
    assume "Some v \<in> set (map (map_option JNumber) xs)"
    then obtain x where "v = JNumber x" "is_double x"
      using assms by (auto simp: Some_map_option)
    then show "?f v = Inr (?g v)"
      by (simp add: parseFloat_Number_toString)
  qed
  then show ?thesis
    by (simp add: constructor_def comp_def option.map_comp)
qed

lemma constructor_dense_numbers:
  assumes "list_all is_double xs"
  shows "constructor (map (\<lambda>x. Some (JNumber x)) xs) =
           Inr \<lparr>value' = map (\<lambda>x. Some (if is_zero x then Finite False 0 (- 1074) else x)) xs\<rparr>"
  using constructor_numbers [of "map Some xs"] assms
  by (auto simp: comp_def list_all_iff)

lemma constructor_Inr:
  "constructor s = Inr v \<Longrightarrow>
   length (value' v) = length s \<and>
   (\<forall>i<length s. (s ! i = None \<longrightarrow> value' v ! i = None) \<and>
      (\<forall>x. s ! i = Some x \<longrightarrow>
          (\<exists>str. value_toString x = Inr str \<and> value' v ! i = Some (parseFloat str))))"
proof -
  assume c: "constructor s = Inr v"
  let ?f = "\<lambda>v. case value_toString v of Inl e \<Rightarrow> Inl e | Inr s \<Rightarrow> Inr (parseFloat s)"
  from c obtain xs where xs: "array_map ?f s = Inr xs" "v = \<lparr>value' = xs\<rparr>"
    by (auto simp: constructor_def split: sum.splits)
  from array_map_Inr [OF xs(1)] have l: "length xs = length s"
    and e: "\<forall>i<length s. (s ! i = None \<longrightarrow> xs ! i = None) \<and>
              (\<forall>x. s ! i = Some x \<longrightarrow> (\<exists>y. ?f x = Inr y \<and> xs ! i = Some y))"
    by simp_all
  have "\<exists>str. value_toString x = Inr str \<and> xs ! i = Some (parseFloat str)"
    if "i < length s" "s ! i = Some x" for i x
  proof -
    from e that obtain y where "?f x = Inr y" "xs ! i = Some y" by blast
    then show ?thesis by (cases "value_toString x") auto
  qed
  moreover have "xs ! i = None" if "i < length s" "s ! i = None" for i
    using e that by blast
  ultimately show ?thesis using l xs(2) by simp
qed

lemma value_toString_Inl: "(\<exists>e. value_toString x = Inl e) \<longleftrightarrow> x = JNull \<or> x = JUndefined"
  by (cases x) auto

lemma value_toString_error: "value_toString x = Inl e \<Longrightarrow> e = TypeError"
  by (cases x) auto

lemma constructor_Inl:
  "(\<exists>e. constructor s = Inl e) \<longleftrightarrow> (Some JNull \<in> set s \<or> Some JUndefined \<in> set s)"
proof -
  let ?f = "\<lambda>v. case value_toString v of Inl e \<Rightarrow> Inl e | Inr s \<Rightarrow> Inr (parseFloat s)"
  have "(\<exists>e. constructor s = Inl e) \<longleftrightarrow> (\<exists>e. array_map ?f s = Inl e)"
    by (auto simp: constructor_def split: sum.splits)
  also have "\<dots> \<longleftrightarrow> (\<exists>x. Some x \<in> set s \<and> (\<exists>e. ?f x = Inl e))"
    by (rule array_map_Inl)
  also have "\<dots> \<longleftrightarrow> (\<exists>x. Some x \<in> set s \<and> (\<exists>e. value_toString x = Inl e))"
  proof -
    have "(\<exists>e. ?f x = Inl e) \<longleftrightarrow> (\<exists>e. value_toString x = Inl e)" for x
      by (cases "value_toString x") auto
    then show ?thesis by simp
  qed
  finally show ?thesis by (auto simp: value_toString_Inl)
qed

lemma constructor_error: "constructor s = Inl e \<Longrightarrow> e = TypeError"
proof -
  assume c: "constructor s = Inl e"
  let ?f = "\<lambda>v. case value_toString v of Inl e \<Rightarrow> Inl e | Inr s \<Rightarrow> Inr (parseFloat s)"
  from c have "array_map ?f s = Inl e"
    by (auto simp: constructor_def split: sum.splits)
  then obtain x where "?f x = Inl e" using array_map_error by fast
  then show ?thesis by (auto split: sum.splits dest: value_toString_error)
qed

lemma constructor_holes: "constructor (replicate n None) = Inr \<lparr>value' = replicate n None\<rparr>"
  by (simp add: constructor_def array_map_holes)

text \<open>\<open>parseFloat\<close> returns NaN exactly on the strings that are not numeric at their
  start: a literal that is read has a number for its value.\<close>

lemma Number_of_not_NaN: "Number_of s a b \<noteq> NaN"
  unfolding Number_of_def Let_def
  by (simp only: if_distrib [of "\<lambda>x. x = NaN"] number.simps if_cancel not_False_eq_True)

lemma Number_of_decimal_not_NaN: "Number_of_decimal s d p \<noteq> NaN"
  by (simp add: Number_of_decimal_def Number_of_not_NaN)

lemma takeWhile_Nil_starts: "takeWhile is_digit cs = [] \<longleftrightarrow> \<not> starts_with_digit cs"
  by (cases cs) (simp_all add: starts_with_digit_def)

lemma dropWhile_not_starts: "\<not> starts_with_digit cs \<Longrightarrow> dropWhile is_digit cs = cs"
  by (cases cs) (simp_all add: starts_with_digit_def)

lemma unsigned_literal_NaN:
  "unsigned_literal s cs = NaN \<longleftrightarrow>
     \<not> (take 8 cs = ''Infinity'' \<or> starts_with_digit cs \<or>
        (take 1 cs = ''.'' \<and> starts_with_digit (drop 1 cs)))"
proof (cases "take 8 cs = ''Infinity''")
  case True
  then show ?thesis by (simp add: unsigned_literal_def)
next
  case inf: False
  show ?thesis
  proof (cases "starts_with_digit cs")
    case True
    then have "takeWhile is_digit cs \<noteq> []"
      by (simp add: takeWhile_Nil_starts)
    then show ?thesis
      using True inf by (simp add: unsigned_literal_def Let_def Number_of_decimal_not_NaN)
  next
    case False
    then have ip: "takeWhile is_digit cs = []" and r1: "dropWhile is_digit cs = cs"
      by (simp_all add: takeWhile_Nil_starts dropWhile_not_starts)
    show ?thesis
      using False inf
      by (simp add: unsigned_literal_def Let_def ip r1 takeWhile_Nil_starts
          Number_of_decimal_not_NaN del: takeWhile_eq_Nil_iff)
  qed
qed

lemma parseFloat_NaN_iff: "parseFloat str = NaN \<longleftrightarrow> \<not> numeric_start str"
  by (simp add: parseFloat_def numeric_start_def Let_def unsigned_literal_NaN)

lemma parseFloat_no_literal:
  assumes "dropWhile is_whitespace str = [] \<or>
           (\<not> is_digit (hd (dropWhile is_whitespace str)) \<and>
            hd (dropWhile is_whitespace str) \<notin> set ''+-.I'')"
  shows "parseFloat str = NaN"
proof (cases "dropWhile is_whitespace str")
  case Nil
  then show ?thesis by (simp add: parseFloat_def unsigned_literal_def Let_def del: dropWhile_eq_Nil_conv)
next
  case (Cons c cs)
  with assms have c: "\<not> is_digit c" "c \<noteq> CHR ''+''" "c \<noteq> CHR ''-''" "c \<noteq> CHR ''.''" "c \<noteq> CHR ''I''"
    by auto
  then show ?thesis
    by (simp add: parseFloat_def unsigned_literal_def Cons take_Cons')
qed

lemma take_drop_nth: "n \<le> length xs \<Longrightarrow> take (n - k) (drop k xs) = map (\<lambda>i. xs ! i) [k..<n]"
  by (rule nth_equalityI) auto

lemma relative_index_clamp: "relative_index len (Integer i) = clamp_bound len i"
  by (auto simp: clamp_bound_def)

lemma clamp_bound_le: "clamp_bound len i \<le> len"
  by (auto simp: clamp_bound_def)

lemma Array_slice_sub_range:
  assumes "(case start of None \<Rightarrow> Integer 0 | Some x \<Rightarrow> ToIntegerOrInfinity x) = Integer a"
    and "(case end of None \<Rightarrow> Integer (int (length xs)) | Some x \<Rightarrow> ToIntegerOrInfinity x) =
           Integer b"
  shows "Array_slice xs start end = sub_range xs a b"
proof -
  have k: "relative_index (length xs)
             (case start of None \<Rightarrow> Integer 0 | Some x \<Rightarrow> ToIntegerOrInfinity x) =
           clamp_bound (length xs) a"
    by (simp only: assms relative_index_clamp)
  have f: "(case end of None \<Rightarrow> length xs
            | Some x \<Rightarrow> relative_index (length xs) (ToIntegerOrInfinity x)) =
           clamp_bound (length xs) b"
  proof (cases "end")
    case None
    with assms(2) show ?thesis by (auto simp: clamp_bound_def)
  next
    case (Some x)
    with assms(2) show ?thesis by (simp only: option.case relative_index_clamp)
  qed
  show ?thesis
    unfolding Array_slice_def Let_def k f sub_range_def
    by (rule take_drop_nth) (rule clamp_bound_le)
qed

lemma set_Array_slice: "set (Array_slice xs start end) \<subseteq> set xs"
  by (auto simp: Array_slice_def Let_def dest!: in_set_takeD in_set_dropD)

lemma slice_numbers:
  assumes "\<forall>x. Some x \<in> set (value' v) \<longrightarrow> is_double x"
  shows "slice v start end =
           Inr \<lparr>value' = map (map_option (\<lambda>x. if is_zero x then Finite False 0 (- 1074) else x))
                            (Array_slice (value' v) start end)\<rparr>"
proof -
  have "\<forall>x. Some x \<in> set (Array_slice (value' v) start end) \<longrightarrow> is_double x"
    using assms set_Array_slice [of "value' v" start "end"] by auto
  then show ?thesis
    unfolding slice_def by (rule constructor_numbers)
qed

lemma slice_total: "\<exists>w. slice v start end = Inr w"
proof (cases "slice v start end")
  case (Inl e)
  then have "Some JNull \<in> set (map (map_option JNumber) (Array_slice (value' v) start end))
     \<or> Some JUndefined \<in> set (map (map_option JNumber) (Array_slice (value' v) start end))"
    using constructor_Inl [of "map (map_option JNumber) (Array_slice (value' v) start end)"]
    by (auto simp: slice_def)
  then show ?thesis by (auto simp: Some_map_option)
next
  case (Inr w)
  then show ?thesis by simp
qed

lemma index_at_append: "a < length st \<Longrightarrow> index_at (st @ ext) a = index_at st a"
  by (simp add: index_at_def nth_append)

lemma index_at_Some_less: "index_at st a = Some c \<Longrightarrow> a < length st"
  by (simp add: index_at_def split: if_splits)

lemma vector_at_append: "vector_at st a = Some w \<Longrightarrow> vector_at (st @ ext) a = Some w"
proof -
  assume h: "vector_at st a = Some w"
  then obtain b xs where b: "index_at st a = Some (VectorCell b)" "index_at st b = Some (ArrayCell xs)"
    "w = \<lparr>value' = xs\<rparr>"
    by (auto simp: vector_at_def split: option.splits cell.splits)
  then have "a < length st" "b < length st"
    by (auto dest: index_at_Some_less)
  then show ?thesis
    using b by (simp add: vector_at_def index_at_append)
qed

lemma invoke_Slice:
  assumes "vector_at st this = Some v"
  shows "\<exists>w. slice v start end = Inr w \<and>
              invoke st this (Slice start end) =
                (st @ [ArrayCell (Array_slice (value' v) start end), ArrayCell (value' w),
                       VectorCell (length st + 1)],
                 Inr (Returned_Vector (length st + 2)))"
proof -
  obtain w where w: "slice v start end = Inr w"
    using slice_total by blast
  then have "constructor (map (map_option JNumber) (Array_slice (value' v) start end)) = Inr w"
    by (simp add: slice_def)
  then have "invoke st this (Slice start end) =
                (st @ [ArrayCell (Array_slice (value' v) start end), ArrayCell (value' w),
                       VectorCell (length st + 1)],
                 Inr (Returned_Vector (length st + 2)))"
    using assms by (simp add: invoke_def new_Vector_def allocate_def)
  with w show ?thesis by blast
qed

lemma invoke_other:
  assumes "vector_at st this = Some v" "\<forall>start end. c \<noteq> Slice start end"
  shows "fst (invoke st this c) = st"
  using assms by (cases c) (simp_all add: invoke_def)

lemma invoke_frame:
  assumes "vector_at st this = Some v"
  shows "\<exists>ext. fst (invoke st this c) = st @ ext"
proof (cases "\<exists>start end. c = Slice start end")
  case True
  then obtain start "end" where c: "c = Slice start end" by blast
  obtain w :: Vector where "invoke st this (Slice start end) =
                (st @ [ArrayCell (Array_slice (value' v) start end), ArrayCell (value' w),
                       VectorCell (length st + 1)],
                 Inr (Returned_Vector (length st + 2)))"
    using invoke_Slice [OF assms, of start "end"] by auto
  then show ?thesis by (simp add: c)
next
  case False
  then show ?thesis using invoke_other [OF assms, of c] by simp
qed

lemma invoke_Equals:
  "vector_at st this = Some v \<Longrightarrow>
   invoke st this (Equals r) = (st, map_sum id Returned_boolean (equals v (argument_of st r)))"
  by (simp add: invoke_def)

lemma constructor_is_double:
  assumes "constructor s = Inr v"
  shows "\<forall>x. Some x \<in> set (value' v) \<longrightarrow> is_double x"
proof (intro allI impI)
  fix x
  assume "Some x \<in> set (value' v)"
  then obtain i where i: "i < length (value' v)" "value' v ! i = Some x"
    by (auto simp: in_set_conv_nth)
  note c = constructor_Inr [OF assms]
  from c i have il: "i < length s" by simp
  with c i have "s ! i \<noteq> None"
    by auto
  then obtain y where y: "s ! i = Some y" by auto
  from c il y obtain str where "value' v ! i = Some (parseFloat str)"
    by blast
  with i have "x = parseFloat str" by simp
  then show "is_double x" by (simp add: is_double_parseFloat)
qed

lemma constructor_dense:
  assumes "constructor s = Inr w" and "None \<notin> set s"
  shows "\<exists>xs. value' w = map Some xs"
proof -
  note c = constructor_Inr [OF assms(1)]
  have "value' w ! i \<noteq> None" if "i < length (value' w)" for i
  proof -
    from c that have i: "i < length s" by simp
    with assms(2) have "s ! i \<noteq> None" by (metis nth_mem)
    then obtain x where "s ! i = Some x" by auto
    with c i show ?thesis by auto
  qed
  then have "value' w = map Some (map the (value' w))"
    by (intro nth_equalityI) auto
  then show ?thesis ..
qed

lemma bit_length_numerals:
  "bit_length (Suc 0) = 1" "bit_length 1 = 1" "bit_length 2 = 2" "bit_length 3 = 2" "bit_length 4 = 3"
  "bit_length 5 = 3" "bit_length 12 = 4"
  by (simp_all add: bit_length.simps)

lemma number_of_int_numerals:
  "number_of_int 1 = Finite False (2 ^ 52) (- 52)"
  "number_of_int 2 = Finite False (2 ^ 52) (- 51)"
  "number_of_int 3 = Finite False (3 * 2 ^ 51) (- 51)"
  "number_of_int 4 = Finite False (2 ^ 52) (- 50)"
  "number_of_int 5 = Finite False (5 * 2 ^ 50) (- 50)"
  "number_of_int (- 1) = Finite True (2 ^ 52) (- 52)"
  "number_of_int (- 2) = Finite True (2 ^ 52) (- 51)"
  by (simp_all add: number_of_int_eq bit_length_numerals)

lemma three_halves: "Number_of False 3 2 = Finite False (3 * 2 ^ 51) (- 52)"
  by (rule Number_of_exact) simp_all

lemma is_zero_number_of_int:
  assumes "\<bar>i\<bar> < 2 ^ 53"
  shows "is_zero (number_of_int i) \<longleftrightarrow> i = 0"
proof (cases "i = 0")
  case True
  then show ?thesis by (simp add: number_of_int_0)
next
  case False
  have n: "0 < nat \<bar>i\<bar>" "nat \<bar>i\<bar> < 2 ^ 53"
    using assms False by (simp_all add: nat_less_iff)
  show ?thesis
    using number_of_int_eq [OF False assms] normalised_bounds [OF n] False by auto
qed

lemma constructor_integers:
  assumes "list_all (\<lambda>i. \<bar>i\<bar> < 2 ^ 53) is"
  shows "constructor (map (\<lambda>i. Some (JNumber (number_of_int i))) is) =
           Inr \<lparr>value' = map (\<lambda>i. Some (number_of_int i)) is\<rparr>"
proof -
  have d: "list_all is_double (map number_of_int is)"
    using assms by (auto simp: list_all_iff is_double_number_of_int)
  have "(if is_zero (number_of_int i) then positive_zero else number_of_int i) = number_of_int i"
    if "i \<in> set is" for i
    using that assms is_zero_number_of_int [of i] number_of_int_0
    by (auto simp: list_all_iff)
  then have "map (\<lambda>x. Some (if is_zero x then positive_zero else x)) (map number_of_int is) =
             map (\<lambda>i. Some (number_of_int i)) is"
    by simp
  then show ?thesis
    using constructor_dense_numbers [OF d] by (simp add: comp_def)
qed

lemma sub_range_whole: "sub_range xs 0 (int (length xs)) = xs"
  by (simp add: sub_range_def clamp_bound_def map_nth)

section \<open>Rendering\<close>

text \<open>The shortest decimal of a small integer is found at the first digit count, and
  \<open>Vector([1, 2, 3]).toString()\<close> is \<open>Vector<1, 2, 3>\<close>, as the specification has it.
  A hole is printed as the empty string.\<close>

lemma digit_char_code: "of_char c = 48 + d \<Longrightarrow> digit_char d = c"
  unfolding digit_char_def by (metis char_of_char)

lemma digits_of_small: "digits_of (Suc 0) = ''1''" "digits_of 1 = ''1''" "digits_of 2 = ''2''" "digits_of 3 = ''3''"
  by (simp_all add: digits_of.simps digit_char_code)

lemma shortest_first:
  assumes "candidates (if 0 \<le> e then m * 2 ^ nat e else m) (if 0 \<le> e then 1 else 2 ^ nat (- e))
             (decimal_exponent (if 0 \<le> e then m * 2 ^ nat e else m)
                (if 0 \<le> e then 1 else 2 ^ nat (- e))) k = (d, p) # rest"
    and "Number_of_decimal s d p = Finite s m e"
  shows "shortest (Suc fuel) k s m e = (d, p)"
  using assms by (simp add: Let_def)

lemma Number_toString_small:
  "Number_toString (number_of_int 1) = ''1''"
  "Number_toString (number_of_int 2) = ''2''"
  "Number_toString (number_of_int 3) = ''3''"
proof -
  have n: "Number_of_decimal False (Suc 0) 0 = number_of_int 1"
    "Number_of_decimal False 1 0 = number_of_int 1"
    "Number_of_decimal False 2 0 = number_of_int 2"
    "Number_of_decimal False 3 0 = number_of_int 3"
    by (simp_all add: Number_of_decimal_def number_of_int_def)
  have f: "format_decimal (Suc 0) 0 = ''1''" "format_decimal 1 0 = ''1''" "format_decimal 2 0 = ''2''" "format_decimal 3 0 = ''3''"
    by (simp_all add: format_decimal_def digits_of_small)
  have "shortest (Suc 16) 1 False (2 ^ 52) (- 52) = (1, 0)"
    by (rule shortest_first [where rest = "[(2, 0)]"])
      (simp_all add: candidates_def decimal_exponent_def digits_of_small n number_of_int_numerals)
  then show "Number_toString (number_of_int 1) = ''1''"
    by (simp add: number_of_int_numerals f)
  have "shortest (Suc 16) 1 False (2 ^ 52) (- 51) = (2, 0)"
    by (rule shortest_first [where rest = "[(3, 0)]"])
      (simp_all add: candidates_def decimal_exponent_def digits_of_small n number_of_int_numerals)
  then show "Number_toString (number_of_int 2) = ''2''"
    by (simp add: number_of_int_numerals f)
  have "shortest (Suc 16) 1 False (3 * 2 ^ 51) (- 51) = (3, 0)"
    by (rule shortest_first [where rest = "[(4, 0)]"])
      (simp_all add: candidates_def decimal_exponent_def digits_of_small n number_of_int_numerals)
  then show "Number_toString (number_of_int 3) = ''3''"
    by (simp add: number_of_int_numerals f)
qed

lemma toString_example:
  "toString \<lparr>value' = map (\<lambda>i. Some (number_of_int i)) [1, 2, 3]\<rparr> = ''Vector<1, 2, 3>''"
  by (simp add: toString_def Number_toString_small)

lemma toString_sparse_example:
  "toString \<lparr>value' = [Some (number_of_int 1), None, Some (number_of_int 3)]\<rparr> = ''Vector<1, , 3>''"
  by (simp add: toString_def Number_toString_small)

section \<open>Serialization\<close>

text \<open>
  C1, as stated: for every Vector, the list \<open>values\<close> of \<open>_toDict\<close> holds one record
  \<open>{double_value: v}\<close> for each position of the vector. The array \<open>new Array(3)\<close> is
  a \<open>number[]\<close> that the constructor accepts; the Vector made from it has the length
  \<open>3\<close> and three holes, and \<open>values\<close> then has three holes and no record at all.
\<close>

theorem toDict_sparse_counterexample:
  "constructor [None, None, None] = Inr \<lparr>value' = [None, None, None]\<rparr>
   \<and> length_vec \<lparr>value' = [None, None, None]\<rparr> = 3
   \<and> values' (array_value (toDict \<lparr>value' = [None, None, None]\<rparr>)) = [None, None, None]
   \<and> (\<forall>i d. element_at (values' (array_value (toDict \<lparr>value' = [None, None, None]\<rparr>))) i
               \<noteq> Some d)"
proof -
  have "element_at [None, None, None] i \<noteq> Some (d :: DoubleValue)" for i d
    by (simp add: element_at_def nth_Cons' less_Suc_eq numeral_3_eq_3)
  then show ?thesis
    by (simp add: constructor_def toDict_def length_vec_def)
qed

text \<open>
  C1, amended: for every Vector, \<open>_toDict\<close> returns the record
  \<open>{array_value: {values: ...}, meaning: 31, exclude_from_indexes: true}\<close> in which
  the list of values is as long as the vector, has the record \<open>{double_value: v}\<close> at
  every position where the vector has the element \<open>v\<close>, and has a hole at every
  position where the vector has a hole. For a Vector without holes the list is exactly
  \<open>[{double_value: v0}, ..., {double_value: vn-1}]\<close>, and a Vector made from an
  array without holes has none. The meaning tag is the constant 31.
\<close>

theorem toDict_wire_format:
  "toDict v = \<lparr>array_value = \<lparr>values' = map (map_option (\<lambda>x. \<lparr>double_value = x\<rparr>)) (value' v)\<rparr>,
               meaning = 31, exclude_from_indexes = True\<rparr>
   \<and> length (values' (array_value (toDict v))) = length_vec v
   \<and> (\<forall>i<length_vec v.
         (\<forall>x. value' v ! i = Some x \<longrightarrow>
              values' (array_value (toDict v)) ! i = Some \<lparr>double_value = x\<rparr>)
         \<and> (value' v ! i = None \<longrightarrow> values' (array_value (toDict v)) ! i = None))
   \<and> toDict \<lparr>value' = map Some xs\<rparr> =
       \<lparr>array_value = \<lparr>values' = map (\<lambda>x. Some \<lparr>double_value = x\<rparr>) xs\<rparr>,
        meaning = 31, exclude_from_indexes = True\<rparr>
   \<and> (constructor s = Inr w \<and> None \<notin> set s \<longrightarrow> (\<exists>ys. value' w = map Some ys))
   \<and> meaning (toDict v) = 31
   \<and> exclude_from_indexes (toDict v)"
proof -
  have "constructor s = Inr w \<and> None \<notin> set s \<longrightarrow> (\<exists>ys. value' w = map Some ys)"
    using constructor_dense [of s w] by blast
  then show ?thesis
    by (simp add: toDict_def VECTOR_VALUE_def length_vec_def comp_def)
qed

text \<open>The example of the specification, \<open>Vector([1.5, -2.0])\<close>: \<open>Number_of False 3 2\<close> is
  the number \<open>3 / 2\<close>. And a vector with a hole between two elements.\<close>

theorem toDict_wire_format_witness:
  "constructor [Some (JNumber (Number_of False 3 2)), Some (JNumber (number_of_int (- 2)))] =
     Inr \<lparr>value' = [Some (Number_of False 3 2), Some (number_of_int (- 2))]\<rparr>
   \<and> toDict \<lparr>value' = [Some (Number_of False 3 2), Some (number_of_int (- 2))]\<rparr> =
     \<lparr>array_value = \<lparr>values' = [Some \<lparr>double_value = Number_of False 3 2\<rparr>,
                                  Some \<lparr>double_value = number_of_int (- 2)\<rparr>]\<rparr>,
      meaning = 31, exclude_from_indexes = True\<rparr>
   \<and> values' (array_value
         (toDict \<lparr>value' = [Some (Number_of False 3 2), None, Some (number_of_int (- 2))]\<rparr>)) =
       [Some \<lparr>double_value = Number_of False 3 2\<rparr>, None,
        Some \<lparr>double_value = number_of_int (- 2)\<rparr>]"
proof -
  have "constructor (map (\<lambda>x. Some (JNumber x)) [Number_of False 3 2, number_of_int (- 2)]) =
          Inr \<lparr>value' = map (\<lambda>x. Some (if is_zero x then positive_zero else x))
                           [Number_of False 3 2, number_of_int (- 2)]\<rparr>"
    by (rule constructor_dense_numbers) (simp add: three_halves number_of_int_numerals)
  then have c: "constructor [Some (JNumber (Number_of False 3 2)),
                             Some (JNumber (number_of_int (- 2)))] =
     Inr \<lparr>value' = [Some (Number_of False 3 2), Some (number_of_int (- 2))]\<rparr>"
    by (simp add: three_halves number_of_int_numerals)
  have d: "toDict \<lparr>value' = [Some (Number_of False 3 2), Some (number_of_int (- 2))]\<rparr> =
     \<lparr>array_value = \<lparr>values' = [Some \<lparr>double_value = Number_of False 3 2\<rparr>,
                                  Some \<lparr>double_value = number_of_int (- 2)\<rparr>]\<rparr>,
      meaning = 31, exclude_from_indexes = True\<rparr>"
    using toDict_wire_format [of "\<lparr>value' = []\<rparr>" "[Number_of False 3 2, number_of_int (- 2)]" "[]" "\<lparr>value' = []\<rparr>"]
    by simp
  have h: "values' (array_value
         (toDict \<lparr>value' = [Some (Number_of False 3 2), None, Some (number_of_int (- 2))]\<rparr>)) =
       [Some \<lparr>double_value = Number_of False 3 2\<rparr>, None,
        Some \<lparr>double_value = number_of_int (- 2)\<rparr>]"
    using toDict_wire_format
      [of "\<lparr>value' = [Some (Number_of False 3 2), None, Some (number_of_int (- 2))]\<rparr>" "[]"
          "[]" "\<lparr>value' = []\<rparr>"]
    by simp
  show ?thesis
    using c d h by (intro conjI)
qed

section \<open>Equality\<close>

text \<open>
  C2, as stated: \<open>v1.equals(v2)\<close> is true only if at every position the element of
  \<open>v1\<close> equals the element of \<open>v2\<close>. \<open>every\<close> passes over a hole: the Vector made
  from \<open>new Array(1)\<close> has the length \<open>1\<close> and no element, the Vector made from
  \<open>[5]\<close> has the length \<open>1\<close> and the element \<open>5\<close>, and \<open>equals\<close> of the first
  with the second is true, although \<open>get(0)\<close> is \<open>undefined\<close> for the first and
  \<open>5\<close> for the second.
\<close>

theorem equals_sparse_counterexample:
  "constructor [None] = Inr \<lparr>value' = [None]\<rparr>
   \<and> constructor [Some (JNumber (number_of_int 5))] = Inr \<lparr>value' = [Some (number_of_int 5)]\<rparr>
   \<and> equals \<lparr>value' = [None]\<rparr> (IsVector \<lparr>value' = [Some (number_of_int 5)]\<rparr>) = Inr True
   \<and> length_vec \<lparr>value' = [None]\<rparr> = length_vec \<lparr>value' = [Some (number_of_int 5)]\<rparr>
   \<and> get \<lparr>value' = [None]\<rparr> (number_of_int 0) = None
   \<and> get \<lparr>value' = [Some (number_of_int 5)]\<rparr> (number_of_int 0) = Some (number_of_int 5)"
proof -
  have "constructor (map (\<lambda>i. Some (JNumber (number_of_int i))) [5]) =
          Inr \<lparr>value' = map (\<lambda>i. Some (number_of_int i)) [5]\<rparr>"
    by (rule constructor_integers) simp
  then show ?thesis
    by (simp add: constructor_def equals_def every_def length_vec_def get_def element_at_def
        number_of_int_0)
qed

text \<open>
  C2, amended: \<open>v1.equals(v2)\<close> is true if and only if the two vectors have the same
  length and, at every position where \<open>v1\<close> has an element, \<open>v2\<close> has an element
  that equals it, two elements being equal as \<open>===\<close> compares numbers
  (\<open>number_equal\<close>). For two Vectors without holes that is: the same length and, at
  every position, the element of \<open>v1\<close> equals the element of \<open>v2\<close>. Between
  numbers other than NaN and \<open>-0\<close>, \<open>===\<close> is being the same value, so on vectors of
  such numbers without holes \<open>equals\<close> is the equality of the two sequences. In
  particular \<open>[1,2,3]\<close> equals \<open>[1,2,3]\<close>, and equals neither \<open>[1,2,3,4]\<close> nor
  \<open>[3,2,1]\<close>.
\<close>

theorem equals_elementwise:
  "equals v1 (IsVector v2) =
     Inr (length_vec v1 = length_vec v2 \<and>
          (\<forall>i<length_vec v1. \<forall>x. value' v1 ! i = Some x \<longrightarrow>
               (\<exists>y. value' v2 ! i = Some y \<and> number_equal x y)))
   \<and> equals \<lparr>value' = map Some xs\<rparr> (IsVector \<lparr>value' = map Some ys\<rparr>) =
       Inr (length xs = length ys \<and> (\<forall>i<length xs. number_equal (xs ! i) (ys ! i)))
   \<and> (list_all (\<lambda>x. is_double x \<and> x \<noteq> NaN \<and> x \<noteq> negative_zero) (xs @ ys) \<longrightarrow>
        equals \<lparr>value' = map Some xs\<rparr> (IsVector \<lparr>value' = map Some ys\<rparr>) = Inr (xs = ys))
   \<and> equals \<lparr>value' = map (\<lambda>i. Some (number_of_int i)) [1, 2, 3]\<rparr>
        (IsVector \<lparr>value' = map (\<lambda>i. Some (number_of_int i)) [1, 2, 3]\<rparr>) = Inr True
   \<and> equals \<lparr>value' = map (\<lambda>i. Some (number_of_int i)) [1, 2, 3]\<rparr>
        (IsVector \<lparr>value' = map (\<lambda>i. Some (number_of_int i)) [1, 2, 3, 4]\<rparr>) = Inr False
   \<and> equals \<lparr>value' = map (\<lambda>i. Some (number_of_int i)) [1, 2, 3]\<rparr>
        (IsVector \<lparr>value' = map (\<lambda>i. Some (number_of_int i)) [3, 2, 1]\<rparr>) = Inr False"
proof (intro conjI impI)
  show "equals v1 (IsVector v2) =
     Inr (length_vec v1 = length_vec v2 \<and>
          (\<forall>i<length_vec v1. \<forall>x. value' v1 ! i = Some x \<longrightarrow>
               (\<exists>y. value' v2 ! i = Some y \<and> number_equal x y)))"
    by (simp add: equals_Vector length_vec_def)
  show "equals \<lparr>value' = map Some xs\<rparr> (IsVector \<lparr>value' = map Some ys\<rparr>) =
       Inr (length xs = length ys \<and> (\<forall>i<length xs. number_equal (xs ! i) (ys ! i)))"
    by (rule equals_dense)
  show "equals \<lparr>value' = map Some xs\<rparr> (IsVector \<lparr>value' = map Some ys\<rparr>) = Inr (xs = ys)"
    if h: "list_all (\<lambda>x. is_double x \<and> x \<noteq> NaN \<and> x \<noteq> negative_zero) (xs @ ys)"
  proof -
    have "number_equal (xs ! i) (ys ! i) \<longleftrightarrow> xs ! i = ys ! i"
      if "i < length xs" "length xs = length ys" for i
      using h that by (intro number_equal_same_value) (auto simp: list_all_iff)
    then show ?thesis
      unfolding equals_dense by (auto simp: list_eq_iff_nth_eq)
  qed
qed (simp_all add: equals_def every_def element_at_def number_of_int_numerals)

text \<open>\<open>Vector([1, 2, 3])\<close> is the vector of the theorem; \<open>[1, -0]\<close> equals \<open>[1, +0]\<close>,
  \<open>[1]\<close> does not equal \<open>[2]\<close>, and a vector with the element \<open>1\<close> and a hole
  equals \<open>[1, 2]\<close>.\<close>

theorem equals_elementwise_witness:
  "constructor (map (\<lambda>i. Some (JNumber (number_of_int i))) [1, 2, 3]) =
     Inr \<lparr>value' = map (\<lambda>i. Some (number_of_int i)) [1, 2, 3]\<rparr>
   \<and> equals \<lparr>value' = [Some (number_of_int 1), Some negative_zero]\<rparr>
        (IsVector \<lparr>value' = [Some (number_of_int 1), Some positive_zero]\<rparr>) = Inr True
   \<and> equals \<lparr>value' = [Some (number_of_int 1)]\<rparr>
        (IsVector \<lparr>value' = [Some (number_of_int 2)]\<rparr>) = Inr False
   \<and> equals \<lparr>value' = [Some (number_of_int 1), None]\<rparr>
        (IsVector \<lparr>value' = [Some (number_of_int 1), Some (number_of_int 2)]\<rparr>) = Inr True
   \<and> equals \<lparr>value' = [Some (number_of_int 1), Some (number_of_int 2)]\<rparr>
        (IsVector \<lparr>value' = [Some (number_of_int 1), Some (number_of_int 2)]\<rparr>) = Inr True"
proof -
  have c: "constructor (map (\<lambda>i. Some (JNumber (number_of_int i))) [1, 2, 3]) =
             Inr \<lparr>value' = map (\<lambda>i. Some (number_of_int i)) [1, 2, 3]\<rparr>"
    by (rule constructor_integers) simp
  have 1: "equals \<lparr>value' = [Some (number_of_int 1), Some negative_zero]\<rparr>
        (IsVector \<lparr>value' = [Some (number_of_int 1), Some positive_zero]\<rparr>) = Inr True"
    using equals_elementwise [of "\<lparr>value' = []\<rparr>" "\<lparr>value' = []\<rparr>" "[number_of_int 1, negative_zero]"
        "[number_of_int 1, positive_zero]"]
    by (simp add: less_Suc_eq all_conj_distrib number_of_int_numerals)
  have 2: "equals \<lparr>value' = [Some (number_of_int 1)]\<rparr>
        (IsVector \<lparr>value' = [Some (number_of_int 2)]\<rparr>) = Inr False"
    using equals_elementwise [of "\<lparr>value' = [Some (number_of_int 1)]\<rparr>"
        "\<lparr>value' = [Some (number_of_int 2)]\<rparr>" "[]" "[]"]
    by (simp add: length_vec_def number_of_int_numerals)
  have 3: "equals \<lparr>value' = [Some (number_of_int 1), None]\<rparr>
        (IsVector \<lparr>value' = [Some (number_of_int 1), Some (number_of_int 2)]\<rparr>) = Inr True"
    using equals_elementwise [of "\<lparr>value' = [Some (number_of_int 1), None]\<rparr>"
        "\<lparr>value' = [Some (number_of_int 1), Some (number_of_int 2)]\<rparr>" "[]" "[]"]
    by (simp add: length_vec_def less_Suc_eq all_conj_distrib number_of_int_numerals)
  have d: "list_all (\<lambda>x. is_double x \<and> x \<noteq> NaN \<and> x \<noteq> negative_zero)
             ([number_of_int 1, number_of_int 2] @ [number_of_int 1, number_of_int 2])"
    by (simp add: number_of_int_numerals)
  have 4: "equals \<lparr>value' = [Some (number_of_int 1), Some (number_of_int 2)]\<rparr>
        (IsVector \<lparr>value' = [Some (number_of_int 1), Some (number_of_int 2)]\<rparr>) = Inr True"
    using equals_elementwise [THEN conjunct2, THEN conjunct2, THEN conjunct1, rule_format, OF d]
    by simp
  show ?thesis
    using c 1 2 3 4 by (intro conjI)
qed

text \<open>
  C3, as stated: \<open>equals\<close> is reflexive and symmetric. Reflexivity fails on a vector
  that holds NaN. (Symmetry fails between the Vector made from \<open>new Array(1)\<close>, whose
  only position is a hole, and the Vector made from \<open>[5]\<close>.)
\<close>

theorem equals_reflexive_counterexample:
  "constructor [Some (JNumber NaN)] = Inr \<lparr>value' = [Some NaN]\<rparr>
   \<and> equals \<lparr>value' = [Some NaN]\<rparr> (IsVector \<lparr>value' = [Some NaN]\<rparr>) = Inr False
   \<and> equals \<lparr>value' = [None]\<rparr> (IsVector \<lparr>value' = [Some (number_of_int 5)]\<rparr>) = Inr True
   \<and> equals \<lparr>value' = [Some (number_of_int 5)]\<rparr> (IsVector \<lparr>value' = [None]\<rparr>) = Inr False"
  using constructor_numbers [of "[Some NaN]"]
  by (simp add: equals_def every_def element_at_def)

text \<open>
  C3, amended: \<open>v.equals(v)\<close> is true exactly when no element of \<open>v\<close> is NaN; and
  \<open>v1.equals(v2)\<close> and \<open>v2.equals(v1)\<close> return the same boolean whenever \<open>v1\<close>
  and \<open>v2\<close> have their holes at the same positions, in particular whenever neither
  has a hole. The two calls differ exactly when one of them returns true and the holes
  of the two vectors are not at the same positions.
\<close>

theorem equals_symmetric_reflexive_without_NaN:
  "equals v (IsVector v) = Inr (Some NaN \<notin> set (value' v))
   \<and> (holes (value' v1) = holes (value' v2) \<longrightarrow>
        equals v1 (IsVector v2) = equals v2 (IsVector v1))
   \<and> equals \<lparr>value' = map Some xs\<rparr> (IsVector \<lparr>value' = map Some ys\<rparr>) =
       equals \<lparr>value' = map Some ys\<rparr> (IsVector \<lparr>value' = map Some xs\<rparr>)
   \<and> (equals v1 (IsVector v2) \<noteq> equals v2 (IsVector v1) \<longleftrightarrow>
        (equals v1 (IsVector v2) = Inr True \<or> equals v2 (IsVector v1) = Inr True) \<and>
        holes (value' v1) \<noteq> holes (value' v2))"
proof (intro conjI impI)
  show "equals v (IsVector v) = Inr (Some NaN \<notin> set (value' v))"
    unfolding equals_Vector by (auto simp: number_equal_refl in_set_conv_nth)
  show s: "equals a (IsVector b) = equals b (IsVector a)"
    if h: "holes (value' a) = holes (value' b)" for a b
  proof (cases "length (value' a) = length (value' b)")
    case False
    then show ?thesis by (auto simp: equals_Vector)
  next
    case True
    have n: "value' a ! i = None \<longleftrightarrow> value' b ! i = None" if "i < length (value' a)" for i
      using h that True holes_iff [of i "value' a"] holes_iff [of i "value' b"] by simp
    have "(\<exists>y. value' b ! i = Some y \<and> number_equal x y)"
      if "i < length (value' a)" "value' a ! i = Some x"
        "\<forall>i<length (value' a). \<forall>y. value' b ! i = Some y \<longrightarrow>
            (\<exists>x. value' a ! i = Some x \<and> number_equal y x)" for i x
    proof -
      from n [OF that(1)] that(2) obtain y where y: "value' b ! i = Some y" by auto
      with that obtain x' where "value' a ! i = Some x'" "number_equal y x'" by blast
      with that(2) y show ?thesis by (simp add: number_equal_sym)
    qed
    moreover have "(\<exists>x. value' a ! i = Some x \<and> number_equal y x)"
      if "i < length (value' a)" "value' b ! i = Some y"
        "\<forall>i<length (value' a). \<forall>x. value' a ! i = Some x \<longrightarrow>
            (\<exists>y. value' b ! i = Some y \<and> number_equal x y)" for i y
    proof -
      from n [OF that(1)] that(2) obtain x where x: "value' a ! i = Some x" by auto
      with that obtain y' where "value' b ! i = Some y'" "number_equal x y'" by blast
      with that(2) x show ?thesis by (simp add: number_equal_sym)
    qed
    ultimately show ?thesis
      unfolding equals_Vector using True by auto
  qed
  show "equals \<lparr>value' = map Some xs\<rparr> (IsVector \<lparr>value' = map Some ys\<rparr>) =
       equals \<lparr>value' = map Some ys\<rparr> (IsVector \<lparr>value' = map Some xs\<rparr>)"
    unfolding equals_dense by (auto simp: number_equal_sym [of "xs ! i" for i])
  have t: "equals b (IsVector a) = Inr False"
    if e: "equals a (IsVector b) = Inr True" and h: "holes (value' a) \<noteq> holes (value' b)"
    for a b
  proof -
    from e have l: "length (value' a) = length (value' b)"
      and p: "\<forall>i<length (value' a). \<forall>x. value' a ! i = Some x \<longrightarrow>
                (\<exists>y. value' b ! i = Some y \<and> number_equal x y)"
      by (simp_all add: equals_Vector)
    have "holes (value' b) \<subseteq> holes (value' a)"
    proof
      fix i
      assume "i \<in> holes (value' b)"
      then have i: "i < length (value' b)" "value' b ! i = None"
        by (simp_all add: holes_iff)
      with p l have "value' a ! i = None"
        by (cases "value' a ! i") auto
      with i l show "i \<in> holes (value' a)"
        by (simp add: holes_iff)
    qed
    with h obtain i where "i \<in> holes (value' a)" "i \<notin> holes (value' b)"
      by blast
    then have i: "i < length (value' a)" "value' a ! i = None" "value' b ! i \<noteq> None"
      using l by (simp_all add: holes_iff)
    then obtain y where "value' b ! i = Some y" by auto
    with i l have "\<not> (\<forall>i<length (value' b). \<forall>y. value' b ! i = Some y \<longrightarrow>
                (\<exists>x. value' a ! i = Some x \<and> number_equal y x))"
      by auto
    then show ?thesis by (simp add: equals_Vector)
  qed
  show "equals v1 (IsVector v2) \<noteq> equals v2 (IsVector v1) \<longleftrightarrow>
        (equals v1 (IsVector v2) = Inr True \<or> equals v2 (IsVector v1) = Inr True) \<and>
        holes (value' v1) \<noteq> holes (value' v2)"
  proof
    assume d: "equals v1 (IsVector v2) \<noteq> equals v2 (IsVector v1)"
    obtain b1 b2 where b: "equals v1 (IsVector v2) = Inr b1" "equals v2 (IsVector v1) = Inr b2"
      by (simp add: equals_Vector)
    with d have "b1 \<or> b2" by auto
    moreover have "holes (value' v1) \<noteq> holes (value' v2)"
      using d s [of v1 v2] by blast
    ultimately show "(equals v1 (IsVector v2) = Inr True \<or> equals v2 (IsVector v1) = Inr True) \<and>
        holes (value' v1) \<noteq> holes (value' v2)"
      using b by auto
  next
    assume a: "(equals v1 (IsVector v2) = Inr True \<or> equals v2 (IsVector v1) = Inr True) \<and>
        holes (value' v1) \<noteq> holes (value' v2)"
    then have h: "holes (value' v1) \<noteq> holes (value' v2)" "holes (value' v2) \<noteq> holes (value' v1)"
      by auto
    from a consider "equals v1 (IsVector v2) = Inr True" | "equals v2 (IsVector v1) = Inr True"
      by blast
    then show "equals v1 (IsVector v2) \<noteq> equals v2 (IsVector v1)"
    proof cases
      case 1
      with t [OF 1 h(1)] show ?thesis by simp
    next
      case 2
      with t [OF 2 h(2)] show ?thesis by simp
    qed
  qed
qed

text \<open>A vector with \<open>-0\<close> equals itself, \<open>[1]\<close> and \<open>[NaN]\<close> are unequal both ways,
  and so are two vectors with a hole at the same position and different elements.\<close>

theorem equals_symmetric_reflexive_without_NaN_witness:
  "equals \<lparr>value' = [Some (number_of_int 1), Some negative_zero, None]\<rparr>
     (IsVector \<lparr>value' = [Some (number_of_int 1), Some negative_zero, None]\<rparr>) = Inr True
   \<and> equals \<lparr>value' = [Some (number_of_int 1)]\<rparr> (IsVector \<lparr>value' = [Some NaN]\<rparr>) =
       equals \<lparr>value' = [Some NaN]\<rparr> (IsVector \<lparr>value' = [Some (number_of_int 1)]\<rparr>)
   \<and> holes [None, Some (number_of_int 1)] = holes [None, Some (number_of_int 2)]
   \<and> equals \<lparr>value' = [None, Some (number_of_int 1)]\<rparr>
        (IsVector \<lparr>value' = [None, Some (number_of_int 2)]\<rparr>) =
       equals \<lparr>value' = [None, Some (number_of_int 2)]\<rparr>
        (IsVector \<lparr>value' = [None, Some (number_of_int 1)]\<rparr>)"
proof -
  have 1: "equals \<lparr>value' = [Some (number_of_int 1), Some negative_zero, None]\<rparr>
     (IsVector \<lparr>value' = [Some (number_of_int 1), Some negative_zero, None]\<rparr>) = Inr True"
    using equals_symmetric_reflexive_without_NaN
      [of "\<lparr>value' = [Some (number_of_int 1), Some negative_zero, None]\<rparr>"
          "\<lparr>value' = []\<rparr>" "\<lparr>value' = []\<rparr>" "[]" "[]"]
    by (simp add: number_of_int_numerals)
  have 2: "equals \<lparr>value' = [Some (number_of_int 1)]\<rparr> (IsVector \<lparr>value' = [Some NaN]\<rparr>) =
       equals \<lparr>value' = [Some NaN]\<rparr> (IsVector \<lparr>value' = [Some (number_of_int 1)]\<rparr>)"
    using equals_symmetric_reflexive_without_NaN
      [of "\<lparr>value' = []\<rparr>" "\<lparr>value' = []\<rparr>" "\<lparr>value' = []\<rparr>" "[number_of_int 1]" "[NaN]"]
    by simp
  have h: "holes [None, Some (number_of_int 1)] = holes [None, Some (number_of_int 2)]"
    by (simp add: holes_def)
  have 3: "equals \<lparr>value' = [None, Some (number_of_int 1)]\<rparr>
        (IsVector \<lparr>value' = [None, Some (number_of_int 2)]\<rparr>) =
       equals \<lparr>value' = [None, Some (number_of_int 2)]\<rparr>
        (IsVector \<lparr>value' = [None, Some (number_of_int 1)]\<rparr>)"
    using equals_symmetric_reflexive_without_NaN
      [of "\<lparr>value' = []\<rparr>" "\<lparr>value' = [None, Some (number_of_int 1)]\<rparr>"
          "\<lparr>value' = [None, Some (number_of_int 2)]\<rparr>" "[]" "[]"] h
    by simp
  show ?thesis
    using 1 2 h 3 by (intro conjI)
qed

text \<open>
  C4. There is a Vector whose \<open>equals\<close> with itself is false: whenever an element of
  \<open>v\<close> is NaN, at any position, \<open>v.equals(v)\<close> is false, because \<open>===\<close> holds NaN
  unequal to itself. The constructor makes such a vector from the non-numeric input
  \<open>["abc"]\<close>.
\<close>

theorem equals_false_on_NaN:
  "(\<exists>w. equals w (IsVector w) = Inr False)
   \<and> (Some NaN \<in> set (value' v) \<longrightarrow> equals v (IsVector v) = Inr False)
   \<and> constructor [Some (JString ''abc'')] = Inr \<lparr>value' = [Some NaN]\<rparr>"
proof (intro conjI impI)
  show "\<exists>w. equals w (IsVector w) = Inr False"
    by (rule exI [of _ "\<lparr>value' = [Some NaN]\<rparr>"]) (simp add: equals_Vector)
  show "equals v (IsVector v) = Inr False" if "Some NaN \<in> set (value' v)"
  proof -
    from that obtain i where "i < length (value' v)" "value' v ! i = Some NaN"
      by (auto simp: in_set_conv_nth)
    then have "\<not> (\<forall>i<length (value' v). \<forall>x. value' v ! i = Some x \<longrightarrow>
                   (\<exists>y. value' v ! i = Some y \<and> number_equal x y))"
      by (auto simp: number_equal_refl)
    then show ?thesis by (simp add: equals_Vector)
  qed
  have "parseFloat ''abc'' = NaN"
    by (rule parseFloat_no_literal) (simp add: is_whitespace_def is_digit_def)
  then show "constructor [Some (JString ''abc'')] = Inr \<lparr>value' = [Some NaN]\<rparr>"
    by (simp add: constructor_def)
qed

theorem equals_false_on_NaN_witness:
  "Some NaN \<in> set (value' \<lparr>value' = [Some (number_of_int 1), None, Some NaN]\<rparr>)
   \<and> equals \<lparr>value' = [Some (number_of_int 1), None, Some NaN]\<rparr>
        (IsVector \<lparr>value' = [Some (number_of_int 1), None, Some NaN]\<rparr>) = Inr False"
  using equals_false_on_NaN [of "\<lparr>value' = [Some (number_of_int 1), None, Some NaN]\<rparr>"]
  by simp

section \<open>Failure modes\<close>

text \<open>
  C5, as stated: the constructor never raises, and a non-numeric element becomes NaN.
  An element \<open>null\<close> or \<open>undefined\<close> has no \<open>toString\<close> method: the call
  \<open>v.toString()\<close> throws a TypeError and the constructor raises. (And the string
  \<open>"12abc"\<close>, which is no number, becomes \<open>12\<close>.)
\<close>

theorem constructor_raises_counterexample:
  "constructor [Some JNull] = Inl TypeError
   \<and> constructor [Some (JNumber (number_of_int 1)), Some JUndefined] = Inl TypeError
   \<and> constructor [Some (JString ''12abc'')] = Inr \<lparr>value' = [Some (number_of_int 12)]\<rparr>"
proof -
  have "parseFloat ''12abc'' = number_of_int 12"
    by (simp add: parseFloat_def unsigned_literal_def is_whitespace_def is_digit_def
        digits_value_def digit_val_def exponent_part_def Number_of_decimal_def
        number_of_int_def)
  then show ?thesis by (simp add: constructor_def)
qed

text \<open>
  C5, amended. The elements of an input are numbers, strings, booleans, \<open>null\<close> and
  \<open>undefined\<close>, and the input may have holes. \<open>equals\<close> raises exactly when its
  argument is not a Vector, with the error of the source. The constructor raises exactly
  when an element is \<open>null\<close> or \<open>undefined\<close>, and then with a TypeError: on numbers,
  strings and booleans it never raises, and a hole is no element: it raises nothing
  and stays a hole. \<open>slice\<close> never raises. A call of a method on a Vector raises only if
  it is \<open>equals\<close> with an argument that is not a Vector: \<open>get\<close>, \<open>slice\<close>,
  \<open>length\<close>, \<open>toString\<close> and the serializer never raise. A boolean element becomes
  NaN. A string element becomes what \<open>parseFloat\<close> reads in it, which is NaN exactly
  when the string is not numeric at its start: when, after leading white space and an
  optional sign, it starts neither with a digit, nor with a dot that a digit follows,
  nor with \<open>Infinity\<close>.
\<close>

theorem failure_modes:
  "((\<exists>e. equals v other = Inl e) \<longleftrightarrow> (\<forall>w. other \<noteq> IsVector w))
   \<and> (equals v other = Inl e1 \<longrightarrow> e1 = Error ''Cannot compare Vector to a non-Vector object.'')
   \<and> ((\<exists>e. constructor s = Inl e) \<longleftrightarrow> (Some JNull \<in> set s \<or> Some JUndefined \<in> set s))
   \<and> (constructor s = Inl e2 \<longrightarrow> e2 = TypeError)
   \<and> constructor (replicate n None) = Inr \<lparr>value' = replicate n None\<rparr>
   \<and> (\<exists>w. slice v start end = Inr w)
   \<and> (vector_at st this = Some v \<and> invoke st this c = (st', Inl e3) \<longrightarrow>
        (\<exists>r. c = Equals r \<and> (\<forall>w. argument_of st r \<noteq> IsVector w)))
   \<and> constructor [Some (JBoolean b)] = Inr \<lparr>value' = [Some NaN]\<rparr>
   \<and> constructor [Some (JString str)] = Inr \<lparr>value' = [Some (parseFloat str)]\<rparr>
   \<and> (parseFloat str = NaN \<longleftrightarrow> \<not> numeric_start str)"
proof (intro conjI impI)
  show "(\<exists>e. equals v other = Inl e) \<longleftrightarrow> (\<forall>w. other \<noteq> IsVector w)"
    by (cases other) (simp_all add: equals_def)
  show "e1 = Error ''Cannot compare Vector to a non-Vector object.''" if "equals v other = Inl e1"
    using that by (cases other) (simp_all add: equals_def)
  show "(\<exists>e. constructor s = Inl e) \<longleftrightarrow> (Some JNull \<in> set s \<or> Some JUndefined \<in> set s)"
    by (rule constructor_Inl)
  show "e2 = TypeError" if "constructor s = Inl e2"
    using that by (rule constructor_error)
  show "constructor (replicate n None) = Inr \<lparr>value' = replicate n None\<rparr>"
    by (rule constructor_holes)
  show "\<exists>w. slice v start end = Inr w"
    by (rule slice_total)
  show "\<exists>r. c = Equals r \<and> (\<forall>w. argument_of st r \<noteq> IsVector w)"
    if h: "vector_at st this = Some v \<and> invoke st this c = (st', Inl e3)"
  proof (cases c)
    case (Slice a b)
    then show ?thesis using h invoke_Slice [of st this v a b] by auto
  next
    case (Equals r)
    with h have "\<exists>e. equals v (argument_of st r) = Inl e"
      by (cases "equals v (argument_of st r)") (auto simp: invoke_def)
    then have "\<forall>w. argument_of st r \<noteq> IsVector w"
      by (cases "argument_of st r") (simp_all add: equals_def)
    then show ?thesis using Equals by simp
  qed (use h in \<open>auto simp: invoke_def\<close>)
  have "parseFloat (if b then ''true'' else ''false'') = NaN"
    by (rule parseFloat_no_literal) (simp add: is_whitespace_def is_digit_def)
  then show "constructor [Some (JBoolean b)] = Inr \<lparr>value' = [Some NaN]\<rparr>"
    by (simp add: constructor_def)
  show "constructor [Some (JString str)] = Inr \<lparr>value' = [Some (parseFloat str)]\<rparr>"
    by (simp add: constructor_def)
  show "parseFloat str = NaN \<longleftrightarrow> \<not> numeric_start str"
    by (rule parseFloat_NaN_iff)
qed

text \<open>The example of the specification, \<open>equals\<close> against a plain array; inputs with
  a hole, with \<open>null\<close>, and with strings that are not numeric at their start; and a
  store in which the cell at address \<open>0\<close> is an array and the cell at \<open>1\<close> a Vector
  over it.\<close>

theorem failure_modes_witness:
  "equals \<lparr>value' = map (\<lambda>i. Some (number_of_int i)) [1, 2, 3]\<rparr>
     (PlainArray (map (\<lambda>i. Some (JNumber (number_of_int i))) [1, 2, 3]))
     = Inl (Error ''Cannot compare Vector to a non-Vector object.'')
   \<and> (\<exists>w. constructor [Some (JString ''1''), None, Some (JBoolean True)] = Inr w)
   \<and> constructor [None, Some JNull] = Inl TypeError
   \<and> constructor [Some (JString ''-x'')] = Inr \<lparr>value' = [Some NaN]\<rparr>
   \<and> parseFloat ''.'' = NaN
   \<and> parseFloat ''+'' = NaN
   \<and> parseFloat ''Infinit'' = NaN
   \<and> parseFloat '' x1'' = NaN
   \<and> parseFloat [] = NaN
   \<and> parseFloat ''12abc'' \<noteq> NaN
   \<and> vector_at [ArrayCell [Some NaN], VectorCell 0] 1 = Some \<lparr>value' = [Some NaN]\<rparr>
   \<and> argument_of [ArrayCell [Some NaN], VectorCell 0] (Reference 0) = PlainArray [Some (JNumber NaN)]
   \<and> invoke [ArrayCell [Some NaN], VectorCell 0] 1 (Equals (Reference 0))
       = ([ArrayCell [Some NaN], VectorCell 0],
          Inl (Error ''Cannot compare Vector to a non-Vector object.''))"
proof -
  let ?v = "\<lparr>value' = map (\<lambda>i. Some (number_of_int i)) [1, 2, 3]\<rparr>"
  let ?a = "PlainArray (map (\<lambda>i. Some (JNumber (number_of_int i))) [1, 2, 3])"
  let ?st = "[ArrayCell [Some NaN], VectorCell 0]"
  note c2 = conjunct2
  note equals_iff = failure_modes [THEN conjunct1, of ?v ?a]
  note constructor_iff = failure_modes [THEN c2, THEN c2, THEN conjunct1]
  note constructor_type = failure_modes [THEN c2, THEN c2, THEN c2, THEN conjunct1, rule_format]
  note string = failure_modes [THEN c2, THEN c2, THEN c2, THEN c2, THEN c2, THEN c2, THEN c2,
      THEN c2, THEN conjunct1]
  note not_a_number = failure_modes [THEN c2, THEN c2, THEN c2, THEN c2, THEN c2, THEN c2,
      THEN c2, THEN c2, THEN c2]
  have "\<exists>e. equals ?v ?a = Inl e"
    using equals_iff by simp
  then obtain e0 where e0: "equals ?v ?a = Inl e0" ..
  have 1: "equals ?v ?a = Inl (Error ''Cannot compare Vector to a non-Vector object.'')"
    using failure_modes [THEN c2, THEN conjunct1, rule_format, OF e0] e0 by simp
  have "\<not> (\<exists>e. constructor [Some (JString ''1''), None, Some (JBoolean True)] = Inl e)"
    using constructor_iff [of "[Some (JString ''1''), None, Some (JBoolean True)]"] by simp
  then have 2: "\<exists>w. constructor [Some (JString ''1''), None, Some (JBoolean True)] = Inr w"
    by (cases "constructor [Some (JString ''1''), None, Some (JBoolean True)]") auto
  have "\<exists>e. constructor [None, Some JNull] = Inl e"
    using constructor_iff [of "[None, Some JNull]"] by simp
  then obtain e where e: "constructor [None, Some JNull] = Inl e" ..
  have 3: "constructor [None, Some JNull] = Inl TypeError"
    using constructor_type [OF e] e by simp
  have n: "\<not> numeric_start ''-x''" "\<not> numeric_start ''.''" "\<not> numeric_start ''+''"
    "\<not> numeric_start ''Infinit''" "\<not> numeric_start '' x1''" "\<not> numeric_start []"
    "numeric_start ''12abc''"
    by (simp_all add: numeric_start_def starts_with_digit_def is_whitespace_def is_digit_def)
  have 4: "constructor [Some (JString ''-x'')] = Inr \<lparr>value' = [Some NaN]\<rparr>"
    using string [of "''-x''"] not_a_number [of "''-x''"] n by simp
  have 5: "parseFloat ''.'' = NaN" "parseFloat ''+'' = NaN" "parseFloat ''Infinit'' = NaN"
    "parseFloat '' x1'' = NaN" "parseFloat [] = NaN" "parseFloat ''12abc'' \<noteq> NaN"
    using n by (simp_all only: not_a_number not_False_eq_True not_not)
  have 6: "vector_at ?st 1 = Some \<lparr>value' = [Some NaN]\<rparr>"
    by (simp add: vector_at_def index_at_def)
  have 7: "argument_of ?st (Reference 0) = PlainArray [Some (JNumber NaN)]"
    by (simp add: argument_of_def vector_at_def index_at_def)
  have 8: "invoke ?st 1 (Equals (Reference 0))
       = (?st, Inl (Error ''Cannot compare Vector to a non-Vector object.''))"
    using invoke_Equals [OF 6, of "Reference 0"] by (simp add: 7 equals_def)
  show ?thesis
    using 1 2 3 4 5 6 7 8 by (intro conjI)
qed

section \<open>Construction, length and indexing\<close>



text \<open>
  C7, as stated: for a numeric input element, \<open>Vector(s).get(i)\<close> equals the element
  itself. The element \<open>-0\<close> prints as \<open>0\<close>, which is read back as \<open>+0\<close>, another
  value. (If equal is meant as \<open>===\<close>, the element NaN is returned as NaN, which
  \<open>===\<close> holds unequal to itself.)
\<close>

theorem get_coercion_counterexample:
  "constructor [Some (JNumber negative_zero)] = Inr \<lparr>value' = [Some positive_zero]\<rparr>
   \<and> get \<lparr>value' = [Some positive_zero]\<rparr> (number_of_int 0) = Some positive_zero
   \<and> positive_zero \<noteq> negative_zero
   \<and> constructor [Some (JNumber NaN)] = Inr \<lparr>value' = [Some NaN]\<rparr>
   \<and> get \<lparr>value' = [Some NaN]\<rparr> (number_of_int 0) = Some NaN
   \<and> \<not> number_equal NaN NaN"
  using constructor_numbers [of "[Some negative_zero]"] constructor_numbers [of "[Some NaN]"]
  by (simp add: get_def element_at_def number_of_int_0)

text \<open>
  C7, amended: for every input sequence \<open>s\<close> the constructor accepts and every index
  \<open>i\<close> with \<open>0 \<le> i < length s\<close> at which \<open>s\<close> has an element, \<open>Vector(s).get(i)\<close>
  returns \<open>parseFloat(s[i].toString())\<close>; for a numeric element other than \<open>-0\<close>
  this is the element itself (NaN for NaN), and for \<open>-0\<close> it is \<open>+0\<close>. At an index
  at which \<open>s\<close> has a hole, \<open>Vector(s).get(i)\<close> returns \<open>undefined\<close>. The index is a
  number: the integer \<open>i\<close> as a number, or any number that names the position \<open>i\<close>.
  An array has fewer than \<open>2 ^ 32\<close> positions.
\<close>

theorem get_constructed:
  assumes "constructor s = Inr v" and "i < length s" and "length s < 2 ^ 32"
  shows "array_index (number_of_int (int i)) = Some i
   \<and> (\<forall>index. array_index index = Some i \<longrightarrow>
         (\<forall>x. s ! i = Some x \<longrightarrow>
              (\<exists>str. value_toString x = Inr str \<and> get v index = Some (parseFloat str)))
         \<and> (\<forall>x. s ! i = Some (JNumber x) \<and> is_double x \<longrightarrow>
               get v index = Some (if is_zero x then positive_zero else x))
         \<and> (s ! i = None \<longrightarrow> get v index = None))"
proof (intro conjI allI impI)
  have "i < 2 ^ 32"
    using assms(2,3) by (rule less_trans)
  then have "int i < 2 ^ 53"
    by simp
  then show "array_index (number_of_int (int i)) = Some i"
    using array_index_number_of_int [of "int i"] by simp
next
  fix index
  assume ix: "array_index index = Some i"
  note c = constructor_Inr [OF assms(1)]
  from c have l: "length (value' v) = length s"
    by simp
  have g: "get v index = value' v ! i"
    using ix assms(2) l by (simp add: get_def element_at_def)
  show e: "\<exists>str. value_toString x = Inr str \<and> get v index = Some (parseFloat str)"
    if "s ! i = Some x" for x
    using c assms(2) that g by auto
  show "get v index = Some (if is_zero x then positive_zero else x)"
    if "s ! i = Some (JNumber x) \<and> is_double x" for x
    using that e [of "JNumber x"] parseFloat_Number_toString [of x] by auto
  show "get v index = None" if "s ! i = None"
    using c assms(2) that g by auto
qed

theorem get_constructed_witness:
  "constructor [Some (JNumber (Number_of False 3 2)), Some (JNumber negative_zero), None,
                Some (JNumber NaN)]
     = Inr \<lparr>value' = [Some (Number_of False 3 2), Some positive_zero, None, Some NaN]\<rparr>
   \<and> get \<lparr>value' = [Some (Number_of False 3 2), Some positive_zero, None, Some NaN]\<rparr>
        (number_of_int 0) = Some (Number_of False 3 2)
   \<and> get \<lparr>value' = [Some (Number_of False 3 2), Some positive_zero, None, Some NaN]\<rparr>
        (number_of_int 1) = Some positive_zero
   \<and> get \<lparr>value' = [Some (Number_of False 3 2), Some positive_zero, None, Some NaN]\<rparr>
        (number_of_int 2) = None
   \<and> get \<lparr>value' = [Some (Number_of False 3 2), Some positive_zero, None, Some NaN]\<rparr>
        (number_of_int 3) = Some NaN
   \<and> get \<lparr>value' = [Some (Number_of False 3 2), Some positive_zero, None, Some NaN]\<rparr>
        negative_zero = Some (Number_of False 3 2)"
proof -
  let ?s = "[Some (JNumber (Number_of False 3 2)), Some (JNumber negative_zero), None,
             Some (JNumber NaN)]"
  let ?v = "\<lparr>value' = [Some (Number_of False 3 2), Some positive_zero, None, Some NaN]\<rparr>"
  have d: "is_double (Number_of False 3 2)" "\<not> is_zero (Number_of False 3 2)"
    by (simp_all add: three_halves)
  have "constructor (map (map_option JNumber)
            [Some (Number_of False 3 2), Some negative_zero, None, Some NaN]) =
          Inr \<lparr>value' = map (map_option (\<lambda>x. if is_zero x then positive_zero else x))
                           [Some (Number_of False 3 2), Some negative_zero, None, Some NaN]\<rparr>"
    by (rule constructor_numbers) (auto simp: d)
  then have c: "constructor ?s = Inr ?v"
    by (simp add: d)
  have l: "length ?s < 2 ^ 32"
    by simp
  note g0 = get_constructed [OF c _ l, of 0, THEN conjunct2, rule_format, THEN conjunct2,
      THEN conjunct1, rule_format, of _ "Number_of False 3 2"]
  note g1 = get_constructed [OF c _ l, of 1, THEN conjunct2, rule_format, THEN conjunct2,
      THEN conjunct1, rule_format, of _ negative_zero]
  note g2 = get_constructed [OF c _ l, of 2, THEN conjunct2, rule_format, THEN conjunct2,
      THEN conjunct2, rule_format]
  note g3 = get_constructed [OF c _ l, of 3, THEN conjunct2, rule_format, THEN conjunct2,
      THEN conjunct1, rule_format, of _ NaN]
  note i0 = get_constructed [OF c _ l, of 0, THEN conjunct1]
  note i1 = get_constructed [OF c _ l, of 1, THEN conjunct1]
  note i2 = get_constructed [OF c _ l, of 2, THEN conjunct1]
  note i3 = get_constructed [OF c _ l, of 3, THEN conjunct1]
  have 0: "get ?v (number_of_int 0) = Some (Number_of False 3 2)"
    using g0 [of "number_of_int 0"] i0 d by simp
  have 1: "get ?v (number_of_int 1) = Some positive_zero"
    using g1 [of "number_of_int 1"] i1 by simp
  have 2: "get ?v (number_of_int 2) = None"
    using g2 [of "number_of_int 2"] i2 by simp
  have 3: "get ?v (number_of_int 3) = Some NaN"
    using g3 [of "number_of_int 3"] i3 by simp
  have 4: "get ?v negative_zero = Some (Number_of False 3 2)"
    using g0 [of negative_zero] d by simp
  show ?thesis
    using c 0 1 2 3 4 by (intro conjI)
qed

text \<open>
  C8. For every Vector \<open>v\<close> and every index outside the range \<open>[0, v.length)\<close>,
  \<open>v.get(index)\<close> returns \<open>undefined\<close>; the call raises no error and leaves the store
  as it was. This holds for every number that names no position below the length: a
  negative number, one that is no integer, NaN, an infinity, and an integer that is at
  least the length.
\<close>

theorem get_out_of_range:
  "((\<forall>i. array_index index = Some i \<longrightarrow> length_vec v \<le> i) \<longrightarrow>
      get v index = None
      \<and> (\<forall>st this. vector_at st this = Some v \<longrightarrow>
            invoke st this (Get index) = (st, Inr (Returned_number None))))
   \<and> (\<bar>j\<bar> < 2 ^ 53 \<and> (j < 0 \<or> int (length_vec v) \<le> j) \<longrightarrow>
        get v (number_of_int j) = None)"
proof (intro conjI impI)
  show g: "get v index = None" if "\<forall>i. array_index index = Some i \<longrightarrow> length_vec v \<le> i"
    for index
    using that by (cases "array_index index") (auto simp: get_def element_at_def length_vec_def)
  then show "\<forall>st this. vector_at st this = Some v \<longrightarrow>
            invoke st this (Get index) = (st, Inr (Returned_number None))"
    if "\<forall>i. array_index index = Some i \<longrightarrow> length_vec v \<le> i"
    using that by (simp add: invoke_def)
  show "get v (number_of_int j) = None"
    if "\<bar>j\<bar> < 2 ^ 53 \<and> (j < 0 \<or> int (length_vec v) \<le> j)"
  proof (rule g, intro allI impI)
    fix i
    assume "array_index (number_of_int j) = Some i"
    then show "length_vec v \<le> i"
      using that array_index_number_of_int [of j] by (auto split: if_splits)
  qed
qed

theorem get_out_of_range_witness:
  "get \<lparr>value' = map (\<lambda>i. Some (number_of_int i)) [1, 2, 3]\<rparr> (number_of_int 3) = None
   \<and> get \<lparr>value' = map (\<lambda>i. Some (number_of_int i)) [1, 2, 3]\<rparr> (number_of_int (- 1)) = None
   \<and> get \<lparr>value' = map (\<lambda>i. Some (number_of_int i)) [1, 2, 3]\<rparr> (Number_of False 3 2) = None
   \<and> get \<lparr>value' = map (\<lambda>i. Some (number_of_int i)) [1, 2, 3]\<rparr> NaN = None
   \<and> get \<lparr>value' = map (\<lambda>i. Some (number_of_int i)) [1, 2, 3]\<rparr> (Infinity False) = None
   \<and> vector_at [VectorCell 1, ArrayCell (map (\<lambda>i. Some (number_of_int i)) [1, 2, 3])] 0
       = Some \<lparr>value' = map (\<lambda>i. Some (number_of_int i)) [1, 2, 3]\<rparr>
   \<and> invoke [VectorCell 1, ArrayCell (map (\<lambda>i. Some (number_of_int i)) [1, 2, 3])] 0 (Get NaN)
       = ([VectorCell 1, ArrayCell (map (\<lambda>i. Some (number_of_int i)) [1, 2, 3])],
          Inr (Returned_number None))"
proof -
  let ?v = "\<lparr>value' = map (\<lambda>i. Some (number_of_int i)) [1, 2, 3]\<rparr>"
  let ?st = "[VectorCell 1, ArrayCell (map (\<lambda>i. Some (number_of_int i)) [1, 2, 3])]"
  have v: "vector_at ?st 0 = Some ?v"
    by (simp add: vector_at_def index_at_def)
  have a: "array_index (Number_of False 3 2) = None" "array_index NaN = None"
    "array_index (Infinity False) = None"
    by (simp_all add: three_halves)
  note t = get_out_of_range [of _ ?v, THEN conjunct1, rule_format]
  note u = get_out_of_range [of NaN ?v, THEN conjunct1, rule_format, THEN conjunct2,
      rule_format, OF _ v]
  note j = get_out_of_range [of _ ?v, THEN conjunct2, rule_format]
  have 1: "get ?v (number_of_int 3) = None"
    using j [of 3] by (simp add: length_vec_def)
  have 2: "get ?v (number_of_int (- 1)) = None"
    using j [of "- 1"] by (simp add: length_vec_def)
  have 3: "get ?v (Number_of False 3 2) = None"
    using t [of "Number_of False 3 2"] a by simp
  have 4: "get ?v NaN = None"
    using t [of NaN] a by simp
  have 5: "get ?v (Infinity False) = None"
    using t [of "Infinity False"] a by simp
  have 6: "invoke ?st 0 (Get NaN) = (?st, Inr (Returned_number None))"
    using u a by simp
  show ?thesis
    using 1 2 3 4 5 v 6 by (intro conjI)
qed

section \<open>Slicing\<close>

text \<open>
  C6, as stated: the value of \<open>v.slice(start, end)\<close> is the sub-range of the value
  of \<open>v\<close>. \<open>slice\<close> hands the sub-range to the constructor, which prints and reads
  every element again: \<open>Vector(["-0"])\<close> holds \<open>-0\<close>, and its slice holds \<open>+0\<close>.
  (If equal is meant as \<open>===\<close>, the slice of \<open>[NaN]\<close> is \<open>[NaN]\<close>, which \<open>===\<close>
  holds unequal to it.)
\<close>

theorem slice_sub_range_counterexample:
  "constructor [Some (JString ''-0'')] = Inr \<lparr>value' = [Some negative_zero]\<rparr>
   \<and> Array_slice [Some negative_zero] None None = [Some negative_zero]
   \<and> slice \<lparr>value' = [Some negative_zero]\<rparr> None None = Inr \<lparr>value' = [Some positive_zero]\<rparr>
   \<and> positive_zero \<noteq> negative_zero
   \<and> slice \<lparr>value' = [Some NaN]\<rparr> None None = Inr \<lparr>value' = [Some NaN]\<rparr>
   \<and> \<not> number_equal NaN NaN"
proof -
  have "parseFloat ''-0'' = negative_zero"
    by (simp add: parseFloat_def unsigned_literal_def is_whitespace_def is_digit_def
        digits_value_def digit_val_def exponent_part_def Number_of_decimal_def Number_of_def
        round_half_even_def bit_length.simps [of 0])
  then have 1: "constructor [Some (JString ''-0'')] = Inr \<lparr>value' = [Some negative_zero]\<rparr>"
    by (simp add: constructor_def)
  have 2: "Array_slice [Some negative_zero] None None = [Some negative_zero]"
    by (simp add: Array_slice_def)
  have 3: "slice \<lparr>value' = [Some negative_zero]\<rparr> None None = Inr \<lparr>value' = [Some positive_zero]\<rparr>"
    using slice_numbers [of "\<lparr>value' = [Some negative_zero]\<rparr>" None None] 2 by simp
  have 4: "slice \<lparr>value' = [Some NaN]\<rparr> None None = Inr \<lparr>value' = [Some NaN]\<rparr>"
    using slice_numbers [of "\<lparr>value' = [Some NaN]\<rparr>" None None] by (simp add: Array_slice_def)
  show ?thesis using 1 2 3 4 by simp
qed

text \<open>
  C6, amended: for every Vector \<open>v\<close> and optional bounds, \<open>v.slice(start, end)\<close>
  returns a new Vector whose value is the half-open sub-range \<open>[start, end)\<close> of the
  value of \<open>v\<close> with every \<open>-0\<close> replaced by \<open>+0\<close> and every other element
  unchanged; a hole of the sub-range stays a hole. For integer bounds the sub-range is
  \<open>sub_range\<close>: bounds out of range clamped to \<open>[0, length]\<close>, negative bounds
  counted from the end, a missing \<open>start\<close> being \<open>0\<close> and a missing \<open>end\<close> the
  length. The call appends three cells to the store, the last of them the new instance,
  and changes no other: the receiver is left unchanged. The elements of \<open>v\<close> are
  binary64 values, as every number of the language is and as every element the
  constructor stores is.
\<close>

theorem slice_sub_range:
  assumes "\<forall>x. Some x \<in> set (value' v) \<longrightarrow> is_double x"
  shows "slice v start end =
           Inr \<lparr>value' = map (map_option (\<lambda>x. if is_zero x then positive_zero else x))
                            (Array_slice (value' v) start end)\<rparr>
   \<and> (\<bar>a\<bar> < 2 ^ 53 \<and> \<bar>b\<bar> < 2 ^ 53 \<longrightarrow>
        Array_slice (value' v) (Some (number_of_int a)) (Some (number_of_int b)) =
          sub_range (value' v) a b
        \<and> Array_slice (value' v) (Some (number_of_int a)) None =
            sub_range (value' v) a (int (length_vec v))
        \<and> Array_slice (value' v) None (Some (number_of_int b)) = sub_range (value' v) 0 b
        \<and> Array_slice (value' v) None None = value' v)
   \<and> (vector_at st this = Some v \<longrightarrow>
        (\<exists>w. slice v start end = Inr w \<and>
             invoke st this (Slice start end) =
               (st @ [ArrayCell (Array_slice (value' v) start end), ArrayCell (value' w),
                      VectorCell (length st + 1)],
                Inr (Returned_Vector (length st + 2)))))"
proof (intro conjI impI)
  show "slice v start end =
           Inr \<lparr>value' = map (map_option (\<lambda>x. if is_zero x then positive_zero else x))
                            (Array_slice (value' v) start end)\<rparr>"
    using assms by (rule slice_numbers)
  show "\<exists>w. slice v start end = Inr w \<and>
             invoke st this (Slice start end) =
               (st @ [ArrayCell (Array_slice (value' v) start end), ArrayCell (value' w),
                      VectorCell (length st + 1)],
                Inr (Returned_Vector (length st + 2)))"
    if "vector_at st this = Some v"
    using that by (rule invoke_Slice)
  show "Array_slice (value' v) None None = value' v"
    using Array_slice_sub_range [of None 0 "value' v" None "int (length (value' v))"]
    by (simp add: sub_range_whole)
next
  assume ab: "\<bar>a\<bar> < 2 ^ 53 \<and> \<bar>b\<bar> < 2 ^ 53"
  then have a: "ToIntegerOrInfinity (number_of_int a) = Integer a"
    and b: "ToIntegerOrInfinity (number_of_int b) = Integer b"
    by (simp_all add: ToIntegerOrInfinity_number_of_int)
  show "Array_slice (value' v) (Some (number_of_int a)) (Some (number_of_int b)) =
          sub_range (value' v) a b"
    by (rule Array_slice_sub_range) (simp_all add: a b)
  show "Array_slice (value' v) (Some (number_of_int a)) None =
            sub_range (value' v) a (int (length_vec v))"
    unfolding length_vec_def by (rule Array_slice_sub_range) (simp_all add: a)
  show "Array_slice (value' v) None (Some (number_of_int b)) = sub_range (value' v) 0 b"
    by (rule Array_slice_sub_range) (simp_all add: b)
qed

text \<open>The vector \<open>Vector(["1", "2", "3", "-0"])\<close> holds \<open>[1, 2, 3, -0]\<close>; its
  \<open>slice(-2)\<close> holds \<open>[3, +0]\<close>, and its \<open>slice(1, 3)\<close> holds \<open>[2, 3]\<close>. The
  slice of a vector with a hole has the hole.\<close>

theorem slice_sub_range_witness:
  "constructor [Some (JString ''1''), Some (JString ''2''), Some (JString ''3''),
                Some (JString ''-0'')] =
     Inr \<lparr>value' = [Some (number_of_int 1), Some (number_of_int 2), Some (number_of_int 3),
                     Some negative_zero]\<rparr>
   \<and> list_all is_double [number_of_int 1, number_of_int 2, number_of_int 3, negative_zero]
   \<and> sub_range [Some (number_of_int 1), Some (number_of_int 2), Some (number_of_int 3),
                Some negative_zero] (- 2) 4
       = [Some (number_of_int 3), Some negative_zero]
   \<and> slice \<lparr>value' = [Some (number_of_int 1), Some (number_of_int 2), Some (number_of_int 3),
                      Some negative_zero]\<rparr>
        (Some (number_of_int (- 2))) None
       = Inr \<lparr>value' = [Some (number_of_int 3), Some positive_zero]\<rparr>
   \<and> slice \<lparr>value' = [Some (number_of_int 1), Some (number_of_int 2), Some (number_of_int 3),
                      Some negative_zero]\<rparr>
        (Some (number_of_int 1)) (Some (number_of_int 3))
       = Inr \<lparr>value' = [Some (number_of_int 2), Some (number_of_int 3)]\<rparr>
   \<and> slice \<lparr>value' = [None, Some negative_zero]\<rparr> None None
       = Inr \<lparr>value' = [None, Some positive_zero]\<rparr>"
proof -
  let ?xs = "[Some (number_of_int 1), Some (number_of_int 2), Some (number_of_int 3),
              Some negative_zero]"
  have "parseFloat ''1'' = number_of_int 1" "parseFloat ''2'' = number_of_int 2"
    "parseFloat ''3'' = number_of_int 3"
    by (simp_all add: parseFloat_def unsigned_literal_def is_whitespace_def is_digit_def
        digits_value_def digit_val_def exponent_part_def Number_of_decimal_def
        number_of_int_def)
  moreover have "parseFloat ''-0'' = negative_zero"
    by (simp add: parseFloat_def unsigned_literal_def is_whitespace_def is_digit_def
        digits_value_def digit_val_def exponent_part_def Number_of_decimal_def Number_of_def
        round_half_even_def bit_length.simps [of 0])
  ultimately have c: "constructor [Some (JString ''1''), Some (JString ''2''),
      Some (JString ''3''), Some (JString ''-0'')] = Inr \<lparr>value' = ?xs\<rparr>"
    by (simp add: constructor_def)
  have d: "\<forall>x. Some x \<in> set (value' \<lparr>value' = ?xs\<rparr>) \<longrightarrow> is_double x"
    using c by (rule constructor_is_double)
  then have d': "list_all is_double [number_of_int 1, number_of_int 2, number_of_int 3,
      negative_zero]"
    by simp
  have z: "\<not> is_zero (number_of_int 2)" "\<not> is_zero (number_of_int 3)"
    by (simp_all add: is_zero_number_of_int)
  have s: "sub_range ?xs (- 2) 4 = [Some (number_of_int 3), Some negative_zero]"
    "sub_range ?xs 1 3 = [Some (number_of_int 2), Some (number_of_int 3)]"
    by (simp_all add: sub_range_def clamp_bound_def eval_nat_numeral)
  note th = slice_sub_range [OF d]
  have a1: "Array_slice ?xs (Some (number_of_int (- 2))) None = sub_range ?xs (- 2) 4"
    using th [of _ _ "- 2" 0] by (simp add: length_vec_def)
  have a2: "Array_slice ?xs (Some (number_of_int 1)) (Some (number_of_int 3)) = sub_range ?xs 1 3"
    using th [of _ _ 1 3] by simp
  have 1: "slice \<lparr>value' = ?xs\<rparr> (Some (number_of_int (- 2))) None
          = Inr \<lparr>value' = [Some (number_of_int 3), Some positive_zero]\<rparr>"
    using th [of "Some (number_of_int (- 2))" None] z by (simp add: a1 s)
  have 2: "slice \<lparr>value' = ?xs\<rparr> (Some (number_of_int 1)) (Some (number_of_int 3))
          = Inr \<lparr>value' = [Some (number_of_int 2), Some (number_of_int 3)]\<rparr>"
    using th [of "Some (number_of_int 1)" "Some (number_of_int 3)"] z by (simp add: a2 s)
  have h: "\<forall>x. Some x \<in> set (value' \<lparr>value' = [None, Some negative_zero]\<rparr>) \<longrightarrow> is_double x"
    by simp
  have 3: "slice \<lparr>value' = [None, Some negative_zero]\<rparr> None None
       = Inr \<lparr>value' = [None, Some positive_zero]\<rparr>"
    using slice_sub_range [OF h, of None None 0 0] by simp
  show ?thesis
    using c d' s(1) 1 2 3 by (intro conjI)
qed

section \<open>Immutability\<close>

text \<open>
  C10. Every operation on a Vector \<open>v\<close> (\<open>get\<close>, \<open>slice\<close>, \<open>length\<close>, \<open>equals\<close>,
  \<open>toString\<close>, the serializer) leaves the value of \<open>v\<close> unchanged, and every other
  object of the store with it. All but \<open>slice\<close> leave the store as it was. \<open>slice\<close>
  returns a new instance: its address and the address of its array are not in the
  store before the call, so the result shares nothing with the receiver.
\<close>

theorem methods_do_not_mutate:
  assumes "vector_at st this = Some v" and "invoke st this c = (st', r)"
  shows "take (length st) st' = st
   \<and> vector_at st' this = Some v
   \<and> (\<forall>a w. vector_at st a = Some w \<longrightarrow> vector_at st' a = Some w)
   \<and> ((\<forall>start end. c \<noteq> Slice start end) \<longrightarrow> st' = st)
   \<and> (\<forall>start end. c = Slice start end \<longrightarrow>
        (\<exists>new a w. r = Inr (Returned_Vector new) \<and> length st \<le> new \<and> length st \<le> a \<and>
           index_at st' new = Some (VectorCell a) \<and>
           index_at st' a = Some (ArrayCell (value' w)) \<and>
           slice v start end = Inr w))"
proof -
  obtain ext where ext: "st' = st @ ext"
    using invoke_frame [OF assms(1), of c] assms(2) by auto
  have 1: "take (length st) st' = st"
    by (simp add: ext)
  have 3: "\<forall>a w. vector_at st a = Some w \<longrightarrow> vector_at st' a = Some w"
    by (simp add: ext vector_at_append)
  have 4: "(\<forall>start end. c \<noteq> Slice start end) \<longrightarrow> st' = st"
    using invoke_other [OF assms(1), of c] assms(2) by auto
  have 5: "\<exists>new a w. r = Inr (Returned_Vector new) \<and> length st \<le> new \<and> length st \<le> a \<and>
           index_at st' new = Some (VectorCell a) \<and>
           index_at st' a = Some (ArrayCell (value' w)) \<and>
           slice v start end = Inr w"
    if c: "c = Slice start end" for start "end"
  proof -
    obtain w where w: "slice v start end = Inr w"
      "invoke st this (Slice start end) =
         (st @ [ArrayCell (Array_slice (value' v) start end), ArrayCell (value' w),
                VectorCell (length st + 1)],
          Inr (Returned_Vector (length st + 2)))"
      using invoke_Slice [OF assms(1), of start "end"] by auto
    from w(2) assms(2) c have
      st': "st' = st @ [ArrayCell (Array_slice (value' v) start end), ArrayCell (value' w),
                        VectorCell (length st + 1)]"
      and r: "r = Inr (Returned_Vector (length st + 2))"
      by simp_all
    have "index_at st' (length st + 2) = Some (VectorCell (length st + 1))"
      "index_at st' (length st + 1) = Some (ArrayCell (value' w))"
      by (simp_all add: st' index_at_def nth_append)
    with r w(1) show ?thesis
      by (intro exI [of _ "length st + 2"] exI [of _ "length st + 1"] exI [of _ w]) simp
  qed
  have 2: "vector_at st' this = Some v"
    using 3 assms(1) by simp
  have 6: "\<forall>start end. c = Slice start end \<longrightarrow>
        (\<exists>new a w. r = Inr (Returned_Vector new) \<and> length st \<le> new \<and> length st \<le> a \<and>
           index_at st' new = Some (VectorCell a) \<and>
           index_at st' a = Some (ArrayCell (value' w)) \<and>
           slice v start end = Inr w)"
    using 5 by (intro allI impI)
  show ?thesis
    using 1 2 3 4 6 by (intro conjI)
qed

text \<open>A store with the array \<open>[1, 2]\<close> at address \<open>0\<close> and a Vector over it at
  address \<open>1\<close>: \<open>slice(1)\<close> appends the arrays at \<open>2\<close> and \<open>3\<close> and the new Vector at
  \<open>4\<close>, over the array at \<open>3\<close>.\<close>

theorem methods_do_not_mutate_witness:
  "vector_at [ArrayCell [Some (number_of_int 1), Some (number_of_int 2)], VectorCell 0] 1
     = Some \<lparr>value' = [Some (number_of_int 1), Some (number_of_int 2)]\<rparr>
   \<and> invoke [ArrayCell [Some (number_of_int 1), Some (number_of_int 2)], VectorCell 0] 1
        (Slice (Some (number_of_int 1)) None)
     = ([ArrayCell [Some (number_of_int 1), Some (number_of_int 2)], VectorCell 0,
         ArrayCell [Some (number_of_int 2)], ArrayCell [Some (number_of_int 2)], VectorCell 3],
        Inr (Returned_Vector 4))
   \<and> vector_at [ArrayCell [Some (number_of_int 1), Some (number_of_int 2)], VectorCell 0,
         ArrayCell [Some (number_of_int 2)], ArrayCell [Some (number_of_int 2)], VectorCell 3] 1
     = Some \<lparr>value' = [Some (number_of_int 1), Some (number_of_int 2)]\<rparr>
   \<and> vector_at [ArrayCell [Some (number_of_int 1), Some (number_of_int 2)], VectorCell 0,
         ArrayCell [Some (number_of_int 2)], ArrayCell [Some (number_of_int 2)], VectorCell 3] 4
     = Some \<lparr>value' = [Some (number_of_int 2)]\<rparr>"
proof -
  let ?xs = "[Some (number_of_int 1), Some (number_of_int 2)]"
  let ?st = "[ArrayCell ?xs, VectorCell 0]"
  let ?c = "Slice (Some (number_of_int 1)) None"
  let ?st' = "[ArrayCell ?xs, VectorCell 0, ArrayCell [Some (number_of_int 2)],
               ArrayCell [Some (number_of_int 2)], VectorCell 3]"
  have v: "vector_at ?st 1 = Some \<lparr>value' = ?xs\<rparr>"
    by (simp add: vector_at_def index_at_def)
  have v4: "vector_at ?st' 4 = Some \<lparr>value' = [Some (number_of_int 2)]\<rparr>"
    by (simp add: vector_at_def index_at_def)
  have d: "\<forall>x. Some x \<in> set (value' \<lparr>value' = ?xs\<rparr>) \<longrightarrow> is_double x"
    by (auto simp: is_double_number_of_int)
  have z: "\<not> is_zero (number_of_int 2)"
    by (simp add: is_zero_number_of_int)
  have a: "Array_slice ?xs (Some (number_of_int 1)) None = [Some (number_of_int 2)]"
    by (simp add: Array_slice_def ToIntegerOrInfinity_number_of_int)
  have s: "slice \<lparr>value' = ?xs\<rparr> (Some (number_of_int 1)) None
            = Inr \<lparr>value' = [Some (number_of_int 2)]\<rparr>"
    using slice_numbers [OF d, of "Some (number_of_int 1)" None] z by (simp add: a)
  have i: "invoke ?st 1 ?c = (?st', Inr (Returned_Vector 4))"
    using invoke_Slice [OF v, of "Some (number_of_int 1)" None] s a by simp
  show ?thesis
    using v i v4 methods_do_not_mutate [OF v i] by simp
qed

end
